theory Spec2Isabelle
  imports Main
begin

section \<open>Document model\<close>

text \<open>
  The configuration document is a DOM tree. An element has an identity (the object
  identity of the DOM node, a number here), a tag name, attributes in document order
  and child nodes; a text node has its text. An element handle, as the source passes
  it around, is the element together with its ancestors, nearest first, so that
  \<open>parentElement\<close> and \<open>closest\<close> can be read off it.
\<close>

datatype node =
    Element nat string "(string \<times> string) list" "node list"
  | TextNode string

type_synonym element = "node list"

text \<open>The three results an attribute read can have in the source.\<close>

datatype jsval = Undefined | Null | Str string

fun isElement :: "node \<Rightarrow> bool" where
  "isElement (Element i t as cs) = True"
| "isElement (TextNode s) = False"

fun nodeId :: "node \<Rightarrow> nat option" where
  "nodeId (Element i t as cs) = Some i"
| "nodeId (TextNode s) = None"

fun tagOf :: "node \<Rightarrow> string option" where
  "tagOf (Element i t as cs) = Some t"
| "tagOf (TextNode s) = None"

fun attrsOf :: "node \<Rightarrow> (string \<times> string) list" where
  "attrsOf (Element i t as cs) = as"
| "attrsOf (TextNode s) = []"

fun kids :: "node \<Rightarrow> node list" where
  "kids (Element i t as cs) = cs"
| "kids (TextNode s) = []"

fun textContent :: "node \<Rightarrow> string" where
  "textContent (TextNode s) = s"
| "textContent (Element i t as cs) = concat (map textContent cs)"

text \<open>\<open>e.getAttribute(k)\<close>: the first attribute of that name, or null.\<close>

fun getAttribute :: "element \<Rightarrow> string \<Rightarrow> string option" where
  "getAttribute [] k = None"
| "getAttribute (n # anc) k = map_of (attrsOf n) k"

definition hasAttribute :: "element \<Rightarrow> string \<Rightarrow> bool" where
  "hasAttribute e k = (getAttribute e k \<noteq> None)"

definition attrVal :: "element \<Rightarrow> string \<Rightarrow> jsval" where
  "attrVal e k = (case getAttribute e k of None \<Rightarrow> Null | Some v \<Rightarrow> Str v)"

text \<open>\<open>e?.getAttribute(k)\<close> on a handle that may be null or undefined.\<close>

fun optAttr :: "element option \<Rightarrow> string \<Rightarrow> jsval" where
  "optAttr None k = Undefined"
| "optAttr (Some e) k = attrVal e k"

text \<open>\<open>v ?? d\<close>, \<open>!v\<close> and \<open>`${v}`\<close> of the source language.\<close>

fun nullish :: "jsval \<Rightarrow> string \<Rightarrow> string" where
  "nullish (Str s) d = s"
| "nullish v d = d"

fun falsy :: "jsval \<Rightarrow> bool" where
  "falsy (Str s) = (s = [])"
| "falsy v = True"

fun render :: "jsval \<Rightarrow> string" where
  "render (Str s) = s"
| "render Null = ''null''"
| "render Undefined = ''undefined''"

text \<open>\<open>e.closest('A, B')\<close> for a list of tag names: the nearest of the element and
  its ancestors that carries one of the tags.\<close>

fun closest :: "string list \<Rightarrow> element \<Rightarrow> element option" where
  "closest ts [] = None"
| "closest ts (n # anc) =
     (case tagOf n of
        Some t \<Rightarrow> if t \<in> set ts then Some (n # anc) else closest ts anc
      | None \<Rightarrow> closest ts anc)"

section \<open>Subscription matcher\<close>

text \<open>An absent attribute read as the empty string.\<close>

definition orEmpty :: "string option \<Rightarrow> string" where
  "orEmpty x = (case x of None \<Rightarrow> [] | Some v \<Rightarrow> v)"

definition sameAttributeValue :: "element option \<Rightarrow> element option \<Rightarrow> string \<Rightarrow> bool" where
  "sameAttributeValue leftElement rightElement attributeName =
     (nullish (optAttr leftElement attributeName) [] =
      nullish (optAttr rightElement attributeName) [])"

definition sameAttributeValueDiffName ::
  "element option \<Rightarrow> string \<Rightarrow> element option \<Rightarrow> string \<Rightarrow> bool" where
  "sameAttributeValueDiffName leftElement leftAttributeName rightElement rightAttributeName =
     (nullish (optAttr leftElement leftAttributeName) [] =
      nullish (optAttr rightElement rightAttributeName) [])"

text \<open>The schema edition is read off the root element of the document.\<close>

definition getSclSchemaVersion :: "node \<Rightarrow> string" where
  "getSclSchemaVersion scl =
     nullish (attrVal [scl] ''version'') ''2003'' @
     nullish (attrVal [scl] ''revision'') [] @
     nullish (attrVal [scl] ''release'') []"

fun serviceTypes :: "string \<Rightarrow> jsval" where
  "serviceTypes k =
     (if k = ''ReportControl'' then Str ''Report''
      else if k = ''GSEControl'' then Str ''GOOSE''
      else if k = ''SampledValueControl'' then Str ''SMV''
      else Undefined)"

text \<open>The document is passed where the source reads \<open>extRefElement.ownerDocument\<close>.\<close>

definition checkEditionSpecificRequirements ::
  "node \<Rightarrow> string \<Rightarrow> element option \<Rightarrow> element \<Rightarrow> bool" where
  "checkEditionSpecificRequirements doc controlTagName controlElement extRefElement =
     (if getSclSchemaVersion doc = ''2003'' then True
      else
        let lDeviceElement = Option.bind controlElement (closest [''LDevice'']);
            lnElement = Option.bind controlElement (closest [''LN0''])
        in Str (nullish (attrVal extRefElement ''serviceType'') []) = serviceTypes controlTagName
           \<and> sameAttributeValueDiffName (Some extRefElement) ''srcLDInst'' lDeviceElement ''inst''
           \<and> sameAttributeValueDiffName (Some extRefElement) ''srcPrefix'' lnElement ''prefix''
           \<and> sameAttributeValueDiffName (Some extRefElement) ''srcLNClass'' lnElement ''lnClass''
           \<and> sameAttributeValueDiffName (Some extRefElement) ''srcLNInst'' lnElement ''inst''
           \<and> sameAttributeValueDiffName (Some extRefElement) ''srcCBName'' controlElement ''name'')"

definition isSubscribed :: "element \<Rightarrow> bool" where
  "isSubscribed extRefElement =
     (hasAttribute extRefElement ''iedName'' \<and>
      hasAttribute extRefElement ''ldInst'' \<and>
      hasAttribute extRefElement ''lnClass'' \<and>
      hasAttribute extRefElement ''lnInst'' \<and>
      hasAttribute extRefElement ''doName'' \<and>
      hasAttribute extRefElement ''daName'')"

definition isSubscribedTo ::
  "node \<Rightarrow> string \<Rightarrow> element option \<Rightarrow> element option \<Rightarrow> element \<Rightarrow> bool" where
  "isSubscribedTo doc controlTagName controlElement fcdaElement extRefElement =
     (attrVal extRefElement ''iedName'' =
        optAttr (Option.bind fcdaElement (closest [''IED''])) ''name'' \<and>
      sameAttributeValue fcdaElement (Some extRefElement) ''ldInst'' \<and>
      sameAttributeValue fcdaElement (Some extRefElement) ''prefix'' \<and>
      sameAttributeValue fcdaElement (Some extRefElement) ''lnClass'' \<and>
      sameAttributeValue fcdaElement (Some extRefElement) ''lnInst'' \<and>
      sameAttributeValue fcdaElement (Some extRefElement) ''doName'' \<and>
      sameAttributeValue fcdaElement (Some extRefElement) ''daName'' \<and>
      checkEditionSpecificRequirements doc controlTagName controlElement extRefElement)"

definition controlBlockReference :: "element option \<Rightarrow> string option" where
  "controlBlockReference controlBlock =
     (case controlBlock of
        None \<Rightarrow> None
      | Some cb \<Rightarrow>
          let anyLn = closest [''LN'', ''LN0''] cb;
              prefix = nullish (optAttr anyLn ''prefix'') [];
              lnClass = optAttr anyLn ''lnClass'';
              lnInst = nullish (optAttr anyLn ''inst'') [];
              ldInst = optAttr (closest [''LDevice''] cb) ''inst'';
              iedName = optAttr (closest [''IED''] cb) ''name'';
              cbName = attrVal cb ''name''
          in if falsy cbName \<and> falsy iedName \<and> falsy ldInst \<and> falsy lnClass then None
             else Some (render iedName @ render ldInst @ ''/'' @ prefix @ render lnClass @
                        lnInst @ ''.'' @ render cbName))"

section \<open>Document model accessors\<close>

definition elemId :: "element \<Rightarrow> nat option" where
  "elemId e = (case e of [] \<Rightarrow> None | n # anc \<Rightarrow> nodeId n)"

definition elemTag :: "element \<Rightarrow> string" where
  "elemTag e = (case e of [] \<Rightarrow> [] | n # anc \<Rightarrow> (case tagOf n of None \<Rightarrow> [] | Some t \<Rightarrow> t))"

definition elemText :: "element \<Rightarrow> string" where
  "elemText e = (case e of [] \<Rightarrow> [] | n # anc \<Rightarrow> textContent n)"

text \<open>\<open>e.parentElement\<close>: null for the root element and for a detached node.\<close>

fun parentElement :: "element \<Rightarrow> element option" where
  "parentElement (n # p # anc) = Some (p # anc)"
| "parentElement e = None"

text \<open>All elements of a subtree in document order, each with its ancestors;
  \<open>anc\<close> are the ancestors of the subtree's root.\<close>

fun subtree :: "node list \<Rightarrow> node \<Rightarrow> element list" where
  "subtree anc (TextNode s) = []"
| "subtree anc (Element i t as cs) =
     (Element i t as cs # anc) # concat (map (subtree (Element i t as cs # anc)) cs)"

definition descendants :: "element \<Rightarrow> element list" where
  "descendants e = (case e of [] \<Rightarrow> [] | n # anc \<Rightarrow> concat (map (subtree (n # anc)) (kids n)))"

text \<open>The handle of the element of a document with a given identity.\<close>

definition locate :: "node \<Rightarrow> nat \<Rightarrow> element option" where
  "locate doc i = find (\<lambda>e. elemId e = Some i) (subtree [] doc)"

text \<open>The handle of the element reached from a handle by a path of child indices.\<close>

fun elementAt :: "element \<Rightarrow> nat list \<Rightarrow> element" where
  "elementAt e [] = e"
| "elementAt [] (i # p) = []"
| "elementAt (n # anc) (i # p) =
     (if i < length (kids n) then elementAt (kids n ! i # n # anc) p else [])"

text \<open>
  Selectors, as far as the source uses them: a compound selector is a tag name with
  attribute equalities, optionally with \<open>:last-child\<close>, or \<open>:scope\<close>; a complex
  selector is its subject compound followed, right to left, by combinators and
  compounds; a selector list is a list of alternatives. The source builds its selector
  strings by interpolating attribute values; the values are taken to be free of quote
  and backslash characters, for which the interpolated strings mean these selectors.
\<close>

datatype compound =
    Sel string "(string \<times> string) list"
  | SelLastChild string "(string \<times> string) list"
  | Scope

datatype combinator = Child | Descendant

type_synonym complex = "compound \<times> (combinator \<times> compound) list"

definition isLastElementChild :: "element \<Rightarrow> bool" where
  "isLastElementChild e =
     (case e of
        n # p # anc \<Rightarrow>
          (case filter isElement (kids p) of
             [] \<Rightarrow> False
           | c # cs \<Rightarrow> nodeId (last (c # cs)) = nodeId n)
      | _ \<Rightarrow> False)"

fun matchesCompound :: "nat option \<Rightarrow> compound \<Rightarrow> element \<Rightarrow> bool" where
  "matchesCompound sc (Sel t avs) e =
     (e \<noteq> [] \<and> tagOf (hd e) = Some t \<and> list_all (\<lambda>(k, v). getAttribute e k = Some v) avs)"
| "matchesCompound sc (SelLastChild t avs) e =
     (e \<noteq> [] \<and> tagOf (hd e) = Some t \<and> list_all (\<lambda>(k, v). getAttribute e k = Some v) avs
      \<and> isLastElementChild e)"
| "matchesCompound sc Scope e = (e \<noteq> [] \<and> sc \<noteq> None \<and> elemId e = sc)"

fun matchesRest :: "nat option \<Rightarrow> (combinator \<times> compound) list \<Rightarrow> element \<Rightarrow> bool" where
  "matchesRest sc [] anc = True"
| "matchesRest sc ((Child, c) # r) [] = False"
| "matchesRest sc ((Child, c) # r) (a # anc) =
     (matchesCompound sc c (a # anc) \<and> matchesRest sc r anc)"
| "matchesRest sc ((Descendant, c) # r) [] = False"
| "matchesRest sc ((Descendant, c) # r) (a # anc) =
     ((matchesCompound sc c (a # anc) \<and> matchesRest sc r anc)
      \<or> matchesRest sc ((Descendant, c) # r) anc)"

definition matchesComplex :: "nat option \<Rightarrow> complex \<Rightarrow> element \<Rightarrow> bool" where
  "matchesComplex sc s e = (matchesCompound sc (fst s) e \<and> matchesRest sc (snd s) (tl e))"

text \<open>\<open>e.querySelectorAll(s)\<close> and \<open>e.querySelector(s)\<close> on an element:
  the proper descendants that match, in document order, matched against all their
  ancestors.\<close>

definition querySelectorAll :: "complex list \<Rightarrow> element \<Rightarrow> element list" where
  "querySelectorAll sels e =
     filter (\<lambda>d. list_ex (\<lambda>s. matchesComplex (elemId e) s d) sels) (descendants e)"

definition querySelector :: "complex list \<Rightarrow> element \<Rightarrow> element option" where
  "querySelector sels e = (case querySelectorAll sels e of [] \<Rightarrow> None | d # ds \<Rightarrow> Some d)"

text \<open>The same on the document, whose only child is the root element.\<close>

definition docQuerySelector :: "complex list \<Rightarrow> node \<Rightarrow> element option" where
  "docQuerySelector sels doc =
     (case filter (\<lambda>d. list_ex (\<lambda>s. matchesComplex None s d) sels) (subtree [] doc) of
        [] \<Rightarrow> None
      | d # ds \<Rightarrow> Some d)"

fun afterNode :: "nat option \<Rightarrow> node list \<Rightarrow> node list" where
  "afterNode i [] = []"
| "afterNode i (c # cs) = (if isElement c \<and> nodeId c = i then cs else afterNode i cs)"

fun beforeNode :: "nat option \<Rightarrow> node list \<Rightarrow> node list" where
  "beforeNode i [] = []"
| "beforeNode i (c # cs) = (if isElement c \<and> nodeId c = i then [] else c # beforeNode i cs)"

definition nextElementSibling :: "element \<Rightarrow> element option" where
  "nextElementSibling e =
     (case e of
        n # p # anc \<Rightarrow>
          (case filter isElement (afterNode (nodeId n) (kids p)) of
             [] \<Rightarrow> None
           | c # cs \<Rightarrow> Some (c # p # anc))
      | _ \<Rightarrow> None)"

definition previousElementSibling :: "element \<Rightarrow> element option" where
  "previousElementSibling e =
     (case e of
        n # p # anc \<Rightarrow>
          (case filter isElement (beforeNode (nodeId n) (kids p)) of
             [] \<Rightarrow> None
           | c # cs \<Rightarrow> Some (last (c # cs) # p # anc))
      | _ \<Rightarrow> None)"

section \<open>Supervision allocator and remover\<close>

text \<open>
  An edit names the nodes of the document by their identity. A null node, parent or
  reference is \<open>None\<close>; an inserted node is given with its subtree.
\<close>

datatype edit =
    Remove "nat option"
  | Insert "nat option" node "nat option"

definition supervisionTypeOf :: "string \<Rightarrow> string" where
  "supervisionTypeOf cbTagName = (if cbTagName = ''GSEControl'' then ''LGOS'' else ''LSVS'')"

definition supervisionNameOf :: "string \<Rightarrow> string" where
  "supervisionNameOf supervisionType = (if supervisionType = ''LGOS'' then ''GoCBRef'' else ''SvCBRef'')"

definition selDoi :: "string \<Rightarrow> complex" where
  "selDoi supervisionName = (Sel ''DOI'' [(''name'', supervisionName)], [])"

definition selDai :: "string \<Rightarrow> complex" where
  "selDai supervisionName =
     (Sel ''DAI'' [(''name'', ''setSrcRef'')], [(Child, Sel ''DOI'' [(''name'', supervisionName)])])"

definition selDaiVal :: "string \<Rightarrow> complex" where
  "selDaiVal supervisionName =
     (Sel ''Val'' [], [(Child, Sel ''DAI'' [(''name'', ''setSrcRef'')]),
                        (Child, Sel ''DOI'' [(''name'', supervisionName)])])"

definition selLn :: "string \<Rightarrow> complex" where
  "selLn supervisionType = (Sel ''LN'' [(''lnClass'', supervisionType)], [])"

definition selLnDai :: "string \<Rightarrow> string \<Rightarrow> complex" where
  "selLnDai supervisionType supervisionName =
     (Sel ''DAI'' [(''name'', ''setSrcRef'')],
      [(Child, Sel ''DOI'' [(''name'', supervisionName)]),
       (Child, Sel ''LN'' [(''lnClass'', supervisionType)])])"

definition selCbRef :: "string \<Rightarrow> string \<Rightarrow> string \<Rightarrow> complex" where
  "selCbRef lnTag supervisionType supervisionName =
     (Sel ''Val'' [], [(Child, Sel ''DAI'' [(''name'', ''setSrcRef'')]),
                        (Child, Sel ''DOI'' [(''name'', supervisionName)]),
                        (Child, Sel lnTag [(''lnClass'', supervisionType)])])"

definition getSupervisionCbRefs :: "element \<Rightarrow> string \<Rightarrow> element list" where
  "getSupervisionCbRefs ied cbTagName =
     (let supervisionType = supervisionTypeOf cbTagName;
          supervisionName = supervisionNameOf supervisionType
      in querySelectorAll [selCbRef ''LN'' supervisionType supervisionName,
                           selCbRef ''LN0'' supervisionType supervisionName] ied)"

definition removeSubscriptionSupervision :: "element option \<Rightarrow> element option \<Rightarrow> edit list" where
  "removeSubscriptionSupervision controlBlock subscriberIED =
     (case (controlBlock, subscriberIED) of
        (Some cb, Some ied) \<Rightarrow>
          (case find (\<lambda>val. Some (elemText val) = controlBlockReference (Some cb))
                  (getSupervisionCbRefs ied (elemTag cb)) of
             None \<Rightarrow> []
           | Some valElement \<Rightarrow>
               (case closest [''LN0'', ''LN''] valElement of
                  None \<Rightarrow> []
                | Some lnElement \<Rightarrow>
                    if parentElement lnElement = None then []
                    else if querySelector [(Sel ''Private'' [(''type'', ''OpenSCD.create'')], [])]
                              lnElement \<noteq> None
                    then [Remove (elemId lnElement)]
                    else [Remove (Option.bind (closest [''DOI''] valElement) elemId)]))
      | _ \<Rightarrow> [])"

text \<open>
  \<open>parseInt(s, 10)\<close>: leading white space is skipped, a sign is read, then the longest
  run of decimal digits; no digit gives NaN, which is \<open>None\<close>. White space is the
  ASCII white space; the number is exact (the source rounds beyond 2^53, which does
  not change a comparison with a count of nodes).
\<close>

definition isWhiteSpace :: "char \<Rightarrow> bool" where
  "isWhiteSpace c = (c \<in> set [CHR 0x20, CHR 0x09, CHR 0x0A, CHR 0x0B, CHR 0x0C, CHR 0x0D])"

definition isDigit :: "char \<Rightarrow> bool" where
  "isDigit c = (c \<in> set ''0123456789'')"

definition digitsValue :: "string \<Rightarrow> int" where
  "digitsValue ds = foldl (\<lambda>acc c. 10 * acc + (int (of_char c) - 48)) 0 ds"

definition parseInt :: "string \<Rightarrow> int option" where
  "parseInt s =
     (let t = dropWhile isWhiteSpace s;
          neg = (t \<noteq> [] \<and> hd t = CHR ''-'');
          u = (if t \<noteq> [] \<and> (hd t = CHR ''-'' \<or> hd t = CHR ''+'') then tl t else t);
          ds = takeWhile isDigit u
      in if ds = [] then None
         else Some (if neg then - digitsValue ds else digitsValue ds))"

definition maxSupervisions :: "element \<Rightarrow> string \<Rightarrow> int" where
  "maxSupervisions subscriberIED controlBlockType =
     (let maxAttr = (if controlBlockType = ''GSEControl'' then ''maxGo'' else ''maxSv'');
          maxValues = parseInt (nullish
            (optAttr (querySelector [(Sel ''SupSubscription'' [], [(Child, Sel ''Services'' [])])]
                        subscriberIED) maxAttr) ''0'')
      in case maxValues of None \<Rightarrow> 0 | Some n \<Rightarrow> n)"

definition instantiatedSupervisionsCount :: "element \<Rightarrow> element \<Rightarrow> nat" where
  "instantiatedSupervisionsCount subscriberIED controlBlock =
     length (filter (\<lambda>val. elemText val \<noteq> [])
               (getSupervisionCbRefs subscriberIED (elemTag controlBlock)))"

definition isSupervisionAllowed :: "node \<Rightarrow> element \<Rightarrow> element \<Rightarrow> string \<Rightarrow> bool" where
  "isSupervisionAllowed doc controlBlock subscriberIED supervisionType =
     (if getSclSchemaVersion doc = ''2003'' then False
      else if querySelector [selLn supervisionType] subscriberIED = None then False
      else if find (\<lambda>val. Some (elemText val) = controlBlockReference (Some controlBlock))
                (getSupervisionCbRefs subscriberIED (elemTag controlBlock)) \<noteq> None
      then False
      else if maxSupervisions subscriberIED (elemTag controlBlock)
                \<le> int (instantiatedSupervisionsCount subscriberIED controlBlock)
      then False
      else True)"

definition anyVal :: complex where
  "anyVal = (Sel ''Val'' [], [])"

definition selLnLastChild :: "string \<Rightarrow> complex" where
  "selLnLastChild supervisionType = (SelLastChild ''LN'' [(''lnClass'', supervisionType)], [])"

definition isConfigurable :: "jsval \<Rightarrow> jsval \<Rightarrow> bool" where
  "isConfigurable valKind valImport =
     ((valKind = Str ''RO'' \<or> valKind = Str ''Conf'') \<and> valImport = Str ''true'')"

text \<open>The document is passed where the source reads \<open>firstSupervisionLN.ownerDocument\<close>.\<close>

definition isSupervisionModificationAllowed :: "node \<Rightarrow> element \<Rightarrow> string \<Rightarrow> bool" where
  "isSupervisionModificationAllowed doc ied supervisionType =
     (case querySelector [selLn supervisionType] ied of
        None \<Rightarrow> False
      | Some firstSupervisionLN \<Rightarrow>
          let supervisionName = supervisionNameOf supervisionType;
              dai = querySelector [selDai supervisionName] firstSupervisionLN;
              instValKind = optAttr dai ''valKind'';
              instValImport = optAttr dai ''valImport''
          in if isConfigurable instValKind instValImport then True
             else
               let lNodeType = attrVal firstSupervisionLN ''lnType'';
                   lnClass = attrVal firstSupervisionLN ''lnClass'';
                   dObj = docQuerySelector
                     [(Sel ''DO'' [(''name'', if lnClass = Str ''LGOS'' then ''GoCBRef'' else ''SvCBRef'')],
                       [(Child, Sel ''LNodeType'' [(''id'', render lNodeType), (''lnClass'', render lnClass)]),
                        (Child, Sel ''DataTypeTemplates'' [])])] doc
               in case dObj of
                    None \<Rightarrow> False
                  | Some d \<Rightarrow>
                      (case docQuerySelector
                              [(Sel ''DA'' [(''name'', ''setSrcRef'')],
                                [(Child, Sel ''DOType'' [(''id'', render (attrVal d ''type''))]),
                                 (Child, Sel ''DataTypeTemplates'' [])])] doc of
                         None \<Rightarrow> False
                       | Some daObj \<Rightarrow>
                           isConfigurable (attrVal daObj ''valKind'') (attrVal daObj ''valImport'')))"

text \<open>
  Nodes made by \<open>createElementNS\<close> get the identities \<open>fresh\<close>, \<open>fresh + 1\<close>, ...,
  which the caller takes outside the document. The function
  \<open>minAvailableLogicalNodeInstance\<close> of the foundation is a parameter: it gives the
  instance number of the new logical node, or nothing.
\<close>

definition createNewSupervisionLnInst ::
  "nat \<Rightarrow> (element list \<Rightarrow> string option) \<Rightarrow> element \<Rightarrow> element \<Rightarrow> string \<Rightarrow> element option" where
  "createNewSupervisionLnInst fresh minAvailableLogicalNodeInstance controlBlock subscriberIED
       supervisionType =
     (case (case getSupervisionCbRefs subscriberIED (elemTag controlBlock) of
              [] \<Rightarrow> None
            | v # vs \<Rightarrow> closest [''LN''] v) of
        None \<Rightarrow> None
      | Some instantiatedSiblings \<Rightarrow>
          (case minAvailableLogicalNodeInstance
                  (querySelectorAll [selLn supervisionType] subscriberIED) of
             None \<Rightarrow> None
           | Some instNumber \<Rightarrow>
               if instNumber = [] then None
               else Some [Element fresh ''LN''
                            [(''lnClass'', supervisionType),
                             (''lnType'', nullish (attrVal instantiatedSiblings ''lnType'') []),
                             (''inst'', instNumber)]
                            [Element (fresh + 1) ''Private'' [(''type'', ''OpenSCD.create'')] []]]))"

definition isAvailableLn :: "string \<Rightarrow> element \<Rightarrow> bool" where
  "isAvailableLn supervisionType ln =
     (case querySelector [selDaiVal (supervisionNameOf supervisionType)] ln of
        None \<Rightarrow> True
      | Some v \<Rightarrow> elemText v = [])"

definition findOrCreateAvailableLNInst ::
  "nat \<Rightarrow> (element list \<Rightarrow> string option) \<Rightarrow> element \<Rightarrow> element \<Rightarrow> string \<Rightarrow> element option" where
  "findOrCreateAvailableLNInst fresh minAvailableLogicalNodeInstance controlBlock subscriberIED
       supervisionType =
     (case find (isAvailableLn supervisionType)
             (querySelectorAll [selLn supervisionType] subscriberIED) of
        Some availableLN \<Rightarrow> Some availableLN
      | None \<Rightarrow> createNewSupervisionLnInst fresh minAvailableLogicalNodeInstance controlBlock
                  subscriberIED supervisionType)"

text \<open>Setting \<open>textContent\<close> of a new element: null and the empty string leave it
  without children.\<close>

definition textChildren :: "string option \<Rightarrow> node list" where
  "textChildren t = (case t of None \<Rightarrow> [] | Some s \<Rightarrow> if s = [] then [] else [TextNode s])"

definition copiedAttr :: "element option \<Rightarrow> string \<Rightarrow> (string \<times> string) list" where
  "copiedAttr src k =
     (case Option.bind src (\<lambda>e. getAttribute e k) of None \<Rightarrow> [] | Some v \<Rightarrow> [(k, v)])"

text \<open>The parts of the batch of \<open>instantiateSubscriptionSupervision\<close>, in its order:
  the insertion of a new logical node, of a missing \<open>DOI\<close>, of a missing \<open>DAI\<close>, the
  removal of the first \<open>Val\<close> of the logical node, and the identities of the \<open>DOI\<close> and
  \<open>DAI\<close> the later parts insert into.\<close>

definition lnEdits :: "string \<Rightarrow> element \<Rightarrow> element \<Rightarrow> edit list" where
  "lnEdits supervisionType ied availableLN =
     (if parentElement availableLN = None then
        (case Option.bind (querySelector [selLn supervisionType] ied) parentElement of
           None \<Rightarrow> []
         | Some parent \<Rightarrow>
             [Insert (elemId parent) (hd availableLN)
                (Option.bind
                   (Option.bind (querySelector [selLnLastChild supervisionType] parent)
                      nextElementSibling)
                   elemId)])
      else [])"

definition doiId :: "nat \<Rightarrow> string \<Rightarrow> element \<Rightarrow> nat option" where
  "doiId fresh supervisionName availableLN =
     (case querySelector [selDoi supervisionName] availableLN of
        None \<Rightarrow> Some (fresh + 2)
      | Some d \<Rightarrow> elemId d)"

definition doiEdits :: "nat \<Rightarrow> string \<Rightarrow> element \<Rightarrow> edit list" where
  "doiEdits fresh supervisionName availableLN =
     (if querySelector [selDoi supervisionName] availableLN = None then
        [Insert (elemId availableLN)
           (Element (fresh + 2) ''DOI'' [(''name'', supervisionName)] []) None]
      else [])"

definition daiId :: "nat \<Rightarrow> string \<Rightarrow> element \<Rightarrow> nat option" where
  "daiId fresh supervisionName availableLN =
     (case querySelector [selDai supervisionName] availableLN of
        None \<Rightarrow> Some (fresh + 3)
      | Some d \<Rightarrow> elemId d)"

definition daiEdits :: "nat \<Rightarrow> string \<Rightarrow> string \<Rightarrow> element \<Rightarrow> element \<Rightarrow> edit list" where
  "daiEdits fresh supervisionType supervisionName ied availableLN =
     (if querySelector [selDai supervisionName] availableLN = None then
        (let srcValRef = querySelector [selLnDai supervisionType supervisionName] ied
         in [Insert (doiId fresh supervisionName availableLN)
               (Element (fresh + 3) ''DAI''
                  ([(''name'', ''setSrcRef'')] @ copiedAttr srcValRef ''valKind'' @
                   copiedAttr srcValRef ''valImport'') []) None])
      else [])"

definition valEdits :: "element \<Rightarrow> edit list" where
  "valEdits availableLN =
     (case querySelector [anyVal] availableLN of
        None \<Rightarrow> []
      | Some v \<Rightarrow> [Remove (elemId v)])"

definition instantiateSubscriptionSupervision ::
  "node \<Rightarrow> nat \<Rightarrow> (element list \<Rightarrow> string option) \<Rightarrow>
   element option \<Rightarrow> element option \<Rightarrow> element option \<Rightarrow> edit list" where
  "instantiateSubscriptionSupervision doc fresh minAvailableLogicalNodeInstance
       controlBlock subscriberIED existingSupervision =
     (let supervisionType =
            (if map_option elemTag controlBlock = Some ''GSEControl'' then ''LGOS'' else ''LSVS'')
      in case (controlBlock, subscriberIED) of
           (Some cb, Some ied) \<Rightarrow>
             if \<not> isSupervisionAllowed doc cb ied supervisionType then []
             else
               (case (case existingSupervision of
                        Some e \<Rightarrow> Some e
                      | None \<Rightarrow> findOrCreateAvailableLNInst fresh minAvailableLogicalNodeInstance
                                  cb ied supervisionType) of
                  None \<Rightarrow> []
                | Some availableLN \<Rightarrow>
                    if \<not> isSupervisionModificationAllowed doc ied supervisionType then []
                    else
                      let supervisionName = supervisionNameOf supervisionType
                      in lnEdits supervisionType ied availableLN @
                         doiEdits fresh supervisionName availableLN @
                         daiEdits fresh supervisionType supervisionName ied availableLN @
                         valEdits availableLN @
                         [Insert (daiId fresh supervisionName availableLN)
                            (Element (fresh + 4) ''Val'' []
                               (textChildren (controlBlockReference (Some cb)))) None])
         | _ \<Rightarrow> [])"

section \<open>Host\<close>

text \<open>
  Modelled from the spec: the application of edits by the host (the package
  open-scd-core is not in the repository). \<open>Remove\<close> takes the node out of its parent;
  \<open>Insert\<close> puts the node into the children of the parent before the reference, and
  at the end when the reference is absent. An edit whose parent is null or not in
  the document, or whose reference is not a child of the parent, changes nothing.
\<close>

fun removeNode :: "nat \<Rightarrow> node \<Rightarrow> node" where
  "removeNode i (TextNode s) = TextNode s"
| "removeNode i (Element j t as cs) =
     Element j t as (map (removeNode i) (filter (\<lambda>c. nodeId c \<noteq> Some i) cs))"

definition insertBefore :: "node \<Rightarrow> nat option \<Rightarrow> node list \<Rightarrow> node list" where
  "insertBefore n r cs =
     (case r of
        None \<Rightarrow> cs @ [n]
      | Some i \<Rightarrow>
          if list_ex (\<lambda>c. nodeId c = Some i) cs
          then takeWhile (\<lambda>c. nodeId c \<noteq> Some i) cs @ n # dropWhile (\<lambda>c. nodeId c \<noteq> Some i) cs
          else cs)"

fun insertNode :: "nat \<Rightarrow> node \<Rightarrow> nat option \<Rightarrow> node \<Rightarrow> node" where
  "insertNode p n r (TextNode s) = TextNode s"
| "insertNode p n r (Element j t as cs) =
     (if j = p then Element j t as (insertBefore n r cs)
      else Element j t as (map (insertNode p n r) cs))"

fun handleEdit :: "edit \<Rightarrow> node \<Rightarrow> node" where
  "handleEdit (Remove None) doc = doc"
| "handleEdit (Remove (Some i)) doc = removeNode i doc"
| "handleEdit (Insert None n r) doc = doc"
| "handleEdit (Insert (Some p) n r) doc = insertNode p n r doc"

definition handleEdits :: "edit list \<Rightarrow> node \<Rightarrow> node" where
  "handleEdits batch doc = fold handleEdit batch doc"

section \<open>Device replacement engine\<close>

text \<open>
  \<open>cloneNode(true)\<close> and \<open>importNode(n, true)\<close>: a deep copy whose elements are new
  nodes, numbered from the next free identity in document order. The result is the
  copy and the next free identity.
\<close>

fun cloneNode :: "nat \<Rightarrow> node \<Rightarrow> node \<times> nat"
  and cloneNodes :: "nat \<Rightarrow> node list \<Rightarrow> node list \<times> nat" where
  "cloneNode k (TextNode s) = (TextNode s, k)"
| "cloneNode k (Element i t as cs) =
     (case cloneNodes (Suc k) cs of (cs', k') \<Rightarrow> (Element k t as cs', k'))"
| "cloneNodes k [] = ([], k)"
| "cloneNodes k (c # cs) =
     (case cloneNode k c of (c', k1) \<Rightarrow>
        (case cloneNodes k1 cs of (cs', k2) \<Rightarrow> (c' # cs', k2)))"

text \<open>\<open>e.setAttribute(k, v)\<close> on a node.\<close>

fun setAttr :: "string \<Rightarrow> string \<Rightarrow> (string \<times> string) list \<Rightarrow> (string \<times> string) list" where
  "setAttr k v [] = [(k, v)]"
| "setAttr k v ((k', v') # as) = (if k' = k then (k, v) # as else (k', v') # setAttr k v as)"

fun setAttribute :: "string \<Rightarrow> string \<Rightarrow> node \<Rightarrow> node" where
  "setAttribute k v (Element i t as cs) = Element i t (setAttr k v as) cs"
| "setAttribute k v (TextNode s) = TextNode s"

text \<open>
  What the user interface holds when the operation starts: the checked items of the
  list of devices, each with the identity string of its device (\<open>dataset.id\<close>), and
  the names chosen in the template selector. A list without \<open>multi\<close> would hold one
  item or none.
\<close>

datatype selection = NoSelection | Single string | Multi "string list"

fun selectedItems :: "selection \<Rightarrow> string list" where
  "selectedItems NoSelection = []"
| "selectedItems (Single i) = [i]"
| "selectedItems (Multi is) = is"

text \<open>
  The getter \<open>selectedIed\<close>: the device under the root whose name is the first chosen
  name. The source looks it up in the devices sorted by name; the sort is stable, so
  the device found is the first of that name in document order.
\<close>

definition selectedIed :: "node \<Rightarrow> string list \<Rightarrow> element option" where
  "selectedIed doc selectedIEDs =
     (case selectedIEDs of
        [] \<Rightarrow> None
      | n # ns \<Rightarrow>
          find (\<lambda>e. getAttribute e ''name'' = Some n)
            (map (\<lambda>c. [c, doc]) (filter (\<lambda>c. tagOf c = Some ''IED'') (kids doc))))"

datatype error = TypeError

datatype outcome = Completed | Thrown error

text \<open>A captured section: the identity string of its logical node and its copy.
  The two maps of the source are keyed by the name of the device, which may be null.\<close>

type_synonym storedInput = "string \<times> node"

type_synonym sections = "string option \<Rightarrow> storedInput list option"

definition inputsOfScope :: "complex list" where
  "inputsOfScope =
     [(Sel ''Inputs'' [], [(Child, Sel ''LN'' []), (Descendant, Scope)]),
      (Sel ''Inputs'' [], [(Child, Sel ''LN0'' []), (Descendant, Scope)])]"

definition gseOfScope :: "complex list" where
  "gseOfScope = [(Sel ''GSEControl'' [], [(Child, Sel ''LN0'' []), (Descendant, Scope)])]"

text \<open>
  The identity function and the resolution of a selector built from a tag and an
  identity string belong to the foundation and are parameters: \<open>identity\<close> maps a
  handle (or null) to its string, \<open>resolve doc tag id\<close> is
  \<open>doc.querySelector(selector(tag, id))\<close>.
\<close>

fun storeSections ::
  "(element option \<Rightarrow> string) \<Rightarrow> string option \<Rightarrow> element list \<Rightarrow> nat \<times> sections
     \<Rightarrow> nat \<times> sections" where
  "storeSections identity name [] st = st"
| "storeSections identity name (sec # secs) (k, m) =
     (case cloneNode k (hd sec) of
        (c, k') \<Rightarrow>
          storeSections identity name secs
            (k', m(name \<mapsto> (case m name of None \<Rightarrow> [] | Some l \<Rightarrow> l)
                              @ [(identity (parentElement sec), c)])))"

fun capture ::
  "(element option \<Rightarrow> string) \<Rightarrow> (node \<Rightarrow> string \<Rightarrow> string \<Rightarrow> element option) \<Rightarrow> node \<Rightarrow>
   string list \<Rightarrow> nat \<times> sections \<times> sections \<Rightarrow> error + nat \<times> sections \<times> sections" where
  "capture identity resolve doc [] st = Inr st"
| "capture identity resolve doc (i # is) (k, inputsSections, gseControlSections) =
     (case resolve doc ''IED'' i of
        None \<Rightarrow> Inl TypeError
      | Some currentIed \<Rightarrow>
          (case storeSections identity (getAttribute currentIed ''name'')
                  (querySelectorAll inputsOfScope currentIed) (k, inputsSections) of
             (k1, inputsSections') \<Rightarrow>
               (case storeSections identity (getAttribute currentIed ''name'')
                       (querySelectorAll gseOfScope currentIed) (k1, gseControlSections) of
                  (k2, gseControlSections') \<Rightarrow>
                    capture identity resolve doc is (k2, inputsSections', gseControlSections'))))"

fun inputEdits ::
  "(node \<Rightarrow> string \<Rightarrow> string \<Rightarrow> element option) \<Rightarrow> node \<Rightarrow> storedInput list \<Rightarrow> error + edit list" where
  "inputEdits resolve doc [] = Inr []"
| "inputEdits resolve doc ((i, input) # rest) =
     (case (case resolve doc ''LN'' i of Some l \<Rightarrow> Some l | None \<Rightarrow> resolve doc ''LN0'' i) of
        None \<Rightarrow> inputEdits resolve doc rest
      | Some lN \<Rightarrow>
          (case querySelector [(Sel ''Inputs'' [], [])] lN of
             None \<Rightarrow> Inl TypeError
           | Some inputs \<Rightarrow>
               (case inputEdits resolve doc rest of
                  Inl e \<Rightarrow> Inl e
                | Inr es \<Rightarrow>
                    Inr (Remove (elemId inputs)
                         # Insert (elemId lN) input (Option.bind (nextElementSibling inputs) elemId)
                         # es))))"

fun gseEdits ::
  "(node \<Rightarrow> string \<Rightarrow> string \<Rightarrow> element option) \<Rightarrow> node \<Rightarrow> element option \<Rightarrow>
   storedInput list \<Rightarrow> error + edit list" where
  "gseEdits resolve doc lastGse [] = Inr []"
| "gseEdits resolve doc lastGse ((i, input) # rest) =
     (case lastGse of
        None \<Rightarrow> Inl TypeError
      | Some g \<Rightarrow>
          (case gseEdits resolve doc lastGse rest of
             Inl e \<Rightarrow> Inl e
           | Inr es \<Rightarrow>
               Inr (Insert (Option.bind (resolve doc ''LN0'' i) elemId) input
                      (Option.bind (nextElementSibling g) elemId) # es)))"

text \<open>
  The state of a run: the document, the batches dispatched so far and the next free
  identity. A dispatched batch is applied by the host before the source goes on.
\<close>

type_synonym run = "node \<times> edit list list \<times> nat"

definition dispatch :: "edit list \<Rightarrow> run \<Rightarrow> run" where
  "dispatch batch st = (case st of (doc, sent, k) \<Rightarrow> (handleEdits batch doc, sent @ [batch], k))"

text \<open>
  The second pass for one selected item. After the first dispatch the handle
  \<open>currentIed\<close> is the removed device, which keeps its subtree: the source reads its
  \<open>GSEControl\<close> descendants and their siblings from it.
\<close>

definition swapBatch :: "node \<Rightarrow> element \<Rightarrow> node \<Rightarrow> edit list" where
  "swapBatch doc currentIed newIed =
     [Remove (elemId currentIed),
      Insert (nodeId doc) newIed (Option.bind (previousElementSibling currentIed) elemId)]"

definition replaceOne ::
  "(node \<Rightarrow> string \<Rightarrow> string \<Rightarrow> element option) \<Rightarrow> string list \<Rightarrow> sections \<Rightarrow> sections \<Rightarrow>
   string \<Rightarrow> run \<Rightarrow> outcome \<times> run" where
  "replaceOne resolve selectedIEDs inputsSections gseControlSections i st =
     (case st of (doc, sent, k) \<Rightarrow>
        (case resolve doc ''IED'' i of
           None \<Rightarrow> (Thrown TypeError, st)
         | Some currentIed \<Rightarrow>
             (case selectedIed doc selectedIEDs of
                None \<Rightarrow> (Thrown TypeError, st)
              | Some template \<Rightarrow>
                  (case cloneNode k (hd template) of
                     (copy, k') \<Rightarrow>
                       let currentIedName = getAttribute currentIed ''name'';
                           newIed = setAttribute ''name'' (render (attrVal currentIed ''name'')) copy;
                           st1 = dispatch (swapBatch doc currentIed newIed) (doc, sent, k');
                           doc1 = fst st1
                       in case inputsSections currentIedName of
                            None \<Rightarrow> (Thrown TypeError, st1)
                          | Some storedInputs \<Rightarrow>
                              (case inputEdits resolve doc1 storedInputs of
                                 Inl e \<Rightarrow> (Thrown e, st1)
                               | Inr inputActions \<Rightarrow>
                                   let gseControls =
                                         querySelectorAll [(Sel ''GSEControl'' [], [])] currentIed;
                                       removals = map (\<lambda>g. Remove (elemId g)) gseControls;
                                       lastGse = (if gseControls = [] then None
                                                  else Some (last gseControls))
                                   in case gseControlSections currentIedName of
                                        None \<Rightarrow> (Thrown TypeError, st1)
                                      | Some storedGse \<Rightarrow>
                                          (case gseEdits resolve doc1 lastGse storedGse of
                                             Inl e \<Rightarrow> (Thrown e, st1)
                                           | Inr insertions \<Rightarrow>
                                               (Completed,
                                                dispatch (inputActions @ removals @ insertions)
                                                  st1)))))))"

fun replaceEach ::
  "(node \<Rightarrow> string \<Rightarrow> string \<Rightarrow> element option) \<Rightarrow> string list \<Rightarrow> sections \<Rightarrow> sections \<Rightarrow>
   string list \<Rightarrow> run \<Rightarrow> outcome \<times> run" where
  "replaceEach resolve selectedIEDs inputsSections gseControlSections [] st = (Completed, st)"
| "replaceEach resolve selectedIEDs inputsSections gseControlSections (i # is) st =
     (case replaceOne resolve selectedIEDs inputsSections gseControlSections i st of
        (Thrown e, st') \<Rightarrow> (Thrown e, st')
      | (Completed, st') \<Rightarrow>
          replaceEach resolve selectedIEDs inputsSections gseControlSections is st')"

definition replaceIeds ::
  "(element option \<Rightarrow> string) \<Rightarrow> (node \<Rightarrow> string \<Rightarrow> string \<Rightarrow> element option) \<Rightarrow>
   selection \<Rightarrow> string list \<Rightarrow> run \<Rightarrow> outcome \<times> run" where
  "replaceIeds identity resolve selected selectedIEDs st =
     (case st of (doc, sent, k) \<Rightarrow>
        if selected = NoSelection \<or> selectedIed doc selectedIEDs = None then (Completed, st)
        else
          (case capture identity resolve doc (selectedItems selected)
                  (k, Map.empty, Map.empty) of
             Inl e \<Rightarrow> (Thrown e, st)
           | Inr (k', inputsSections, gseControlSections) \<Rightarrow>
               replaceEach resolve selectedIEDs inputsSections gseControlSections
                 (selectedItems selected) (doc, sent, k')))"

section \<open>Paths and heads\<close>

text \<open>
  Notions for the proofs about applied edits: the head of a node (its identity, tag
  and attributes, without its children), the identities of a tree, the paths from a
  node down to a descendant, the paths with given heads, and the edits that nest a
  list of new nodes one into the other under a parent.
\<close>

definition nodeHead :: "node \<Rightarrow> nat option \<times> string option \<times> (string \<times> string) list" where
  "nodeHead n = (nodeId n, tagOf n, attrsOf n)"

fun allIds :: "node \<Rightarrow> nat list" where
  "allIds (TextNode s) = []"
| "allIds (Element i t as cs) = i # concat (map allIds cs)"

fun downPath :: "node \<Rightarrow> node list \<Rightarrow> bool" where
  "downPath t0 [] = True"
| "downPath t0 (n # ns) = (isElement n \<and> n \<in> set (kids t0) \<and> downPath n ns)"

definition tracks :: "node \<Rightarrow> (nat option \<times> string option \<times> (string \<times> string) list) list \<Rightarrow> bool" where
  "tracks t hs = (\<exists>ns. downPath t ns \<and> map nodeHead ns = hs)"

fun nestEdits :: "nat option \<Rightarrow> node list \<Rightarrow> edit list" where
  "nestEdits p [] = []"
| "nestEdits p (m # ms) = Insert p m None # nestEdits (nodeId m) ms"

section \<open>Example documents\<close>

text \<open>
  A publisher device with three GOOSE control blocks and a subscriber device with
  capacity for two GOOSE supervisions: one supervision logical node written by the
  user and one created by the engine. The text of the second supervision is a
  parameter.
\<close>

definition exPublisher :: node where
  "exPublisher =
     Element 1 ''IED'' [(''name'', ''Pub'')]
       [Element 4 ''LDevice'' [(''inst'', ''LD0'')]
         [Element 5 ''LN0'' [(''lnClass'', ''LLN0''), (''inst'', [])]
           [Element 6 ''GSEControl'' [(''name'', ''gcb'')] [],
            Element 7 ''GSEControl'' [(''name'', ''gcb2'')] [],
            Element 8 ''GSEControl'' [(''name'', ''gcb3'')] []]]]"

definition exSubscriber :: "string \<Rightarrow> node" where
  "exSubscriber secondText =
     Element 10 ''IED'' [(''name'', ''Sub'')]
       [Element 11 ''Services'' [] [Element 12 ''SupSubscription'' [(''maxGo'', ''2'')] []],
        Element 15 ''LDevice'' [(''inst'', ''LD1'')]
         [Element 17 ''LN'' [(''lnClass'', ''LGOS''), (''inst'', ''1''), (''lnType'', ''LGOS1'')]
           [Element 18 ''DOI'' [(''name'', ''GoCBRef'')]
             [Element 19 ''DAI''
                [(''name'', ''setSrcRef''), (''valKind'', ''RO''), (''valImport'', ''true'')]
               [Element 20 ''Val'' [] [TextNode ''PubLD0/LLN0.gcb'']]]],
          Element 21 ''LN'' [(''lnClass'', ''LGOS''), (''inst'', ''2''), (''lnType'', ''LGOS1'')]
           [Element 22 ''Private'' [(''type'', ''OpenSCD.create'')] [],
            Element 23 ''DOI'' [(''name'', ''GoCBRef'')]
             [Element 24 ''DAI'' [(''name'', ''setSrcRef'')]
               [Element 25 ''Val'' []
                  (if secondText = [] then [] else [TextNode secondText])]]]]]"

definition exDoc :: "string \<Rightarrow> node" where
  "exDoc secondText =
     Element 0 ''SCL'' [(''version'', ''2007''), (''revision'', ''B'')]
       [exPublisher, exSubscriber secondText]"

text \<open>The control blocks \<open>gcb\<close>, \<open>gcb2\<close> and \<open>gcb3\<close> of the publisher (\<open>i\<close> from 0)
  and the subscriber device.\<close>

definition exControl :: "string \<Rightarrow> nat \<Rightarrow> element" where
  "exControl secondText i = elementAt [exDoc secondText] [0, 0, 0, i]"

definition exIed :: "string \<Rightarrow> element" where
  "exIed secondText = elementAt [exDoc secondText] [1]"

text \<open>A data point of a publisher and an external reference to it in a subscriber.\<close>

definition exExtRefAttrs :: "(string \<times> string) list" where
  "exExtRefAttrs =
     [(''iedName'', ''Pub''), (''ldInst'', ''LD0''), (''lnClass'', ''MMXU''), (''lnInst'', ''1''),
      (''doName'', ''A''), (''daName'', ''phsA''), (''serviceType'', ''GOOSE''),
      (''srcLDInst'', ''LD0''), (''srcLNClass'', ''LLN0''), (''srcCBName'', ''gcb'')]"

definition exMatchDoc :: node where
  "exMatchDoc =
     Element 0 ''SCL'' [(''version'', ''2007''), (''revision'', ''B'')]
       [Element 1 ''IED'' [(''name'', ''Pub'')]
         [Element 4 ''LDevice'' [(''inst'', ''LD0'')]
           [Element 5 ''LN0'' [(''lnClass'', ''LLN0''), (''inst'', [])]
             [Element 32 ''DataSet'' [(''name'', ''ds'')]
               [Element 31 ''FCDA''
                  [(''ldInst'', ''LD0''), (''lnClass'', ''MMXU''), (''lnInst'', ''1''),
                   (''doName'', ''A''), (''daName'', ''phsA'')] []],
              Element 6 ''GSEControl'' [(''name'', ''gcb'')] [],
              Element 7 ''GSEControl'' [(''name'', ''gcb2'')] []]]],
        Element 10 ''IED'' [(''name'', ''Sub'')]
         [Element 15 ''LDevice'' [(''inst'', ''LD1'')]
           [Element 16 ''LN0'' [(''lnClass'', ''LLN0''), (''inst'', [])]
             [Element 33 ''Inputs'' [] [Element 30 ''ExtRef'' exExtRefAttrs []]]]]]"

definition exFcda :: element where
  "exFcda = elementAt [exMatchDoc] [0, 0, 0, 0, 0]"

definition exGse :: "nat \<Rightarrow> element" where
  "exGse i = elementAt [exMatchDoc] [0, 0, 0, Suc i]"

definition exExtRef :: element where
  "exExtRef = elementAt [exMatchDoc] [1, 0, 0, 0, 0]"

text \<open>A control block in a device that carries no name.\<close>

definition exUnnamed :: node where
  "exUnnamed =
     Element 0 ''SCL'' [(''version'', ''2007''), (''revision'', ''B'')]
       [Element 1 ''IED'' []
         [Element 4 ''LDevice'' [(''inst'', ''LD0'')]
           [Element 5 ''LN0'' [(''lnClass'', ''LLN0''), (''inst'', [])]
             [Element 6 ''GSEControl'' [(''name'', ''gcb'')] []]]]]"

text \<open>A supervision logical node that is the root of its tree.\<close>

definition exRootLn :: node where
  "exRootLn =
     Element 40 ''LN'' [(''lnClass'', ''LGOS''), (''inst'', ''1'')]
       [Element 41 ''DOI'' [(''name'', ''GoCBRef'')]
         [Element 42 ''DAI'' [(''name'', ''setSrcRef'')]
           [Element 43 ''Val'' [] [TextNode ''PubLD0/LLN0.gcb'']]]]"

text \<open>
  Modelled from the spec: the identity function and the selector resolution of the
  foundation (\<open>foundation/identities\<close> is not in the repository). The identity of a
  device is its name, that of a logical device adds \<open>>>\<close> and its instance, that of a
  logical node adds \<open>>\<close> and its prefix, class and instance; a tag and an identity
  resolve to the first element of the document with that tag and that identity.
\<close>

fun exIdentityOf :: "element \<Rightarrow> string" where
  "exIdentityOf [] = ''NaN''"
| "exIdentityOf (n # anc) =
     (if tagOf n = Some ''IED'' then orEmpty (map_of (attrsOf n) ''name'')
      else if tagOf n = Some ''LDevice''
        then exIdentityOf anc @ ''>>'' @ orEmpty (map_of (attrsOf n) ''inst'')
      else if tagOf n = Some ''LN'' \<or> tagOf n = Some ''LN0''
        then exIdentityOf anc @ ''>'' @ orEmpty (map_of (attrsOf n) ''prefix'') @
             orEmpty (map_of (attrsOf n) ''lnClass'') @ orEmpty (map_of (attrsOf n) ''inst'')
      else exIdentityOf anc)"

definition exIdentity :: "element option \<Rightarrow> string" where
  "exIdentity e = (case e of None \<Rightarrow> ''NaN'' | Some c \<Rightarrow> exIdentityOf c)"

definition exResolve :: "node \<Rightarrow> string \<Rightarrow> string \<Rightarrow> element option" where
  "exResolve doc tag i = find (\<lambda>e. elemTag e = tag \<and> exIdentityOf e = i) (subtree [] doc)"

text \<open>
  A plant of two devices after a \<open>Communication\<close> section: the device \<open>IED1\<close>, to be
  replaced, and the template \<open>TPL\<close>. Each has one logical device whose \<open>LN0\<close> owns
  a binding section (optional for \<open>IED1\<close>) and, as its last child, one message
  definition.
\<close>

definition exDevice :: "nat \<Rightarrow> string \<Rightarrow> string \<Rightarrow> bool \<Rightarrow> node" where
  "exDevice i name cb withInputs =
     Element i ''IED'' [(''name'', name)]
       [Element (i + 1) ''LDevice'' [(''inst'', ''LD0'')]
         [Element (i + 2) ''LN0'' [(''lnClass'', ''LLN0'')]
           ((if withInputs then [Element (i + 3) ''Inputs'' [] []] else []) @
            [Element (i + 4) ''GSEControl'' [(''name'', cb)] []])]]"

definition exPlant :: "bool \<Rightarrow> node" where
  "exPlant withInputs =
     Element 0 ''SCL'' []
       [Element 1 ''Communication'' [] [],
        exDevice 2 ''IED1'' ''gcbOld'' withInputs,
        exDevice 10 ''TPL'' ''gcbTpl'' True]"

text \<open>
  Two subscriber devices with a free supervision logical node of unusual content:
  in \<open>exNested\<close> the \<open>DOI\<close> of the supervision name lies in a \<open>Private\<close> section of
  the logical node; in \<open>exValHolder\<close> the logical node holds a \<open>Val\<close> that holds a
  further logical node with the \<open>DOI\<close> and \<open>DAI\<close>.
\<close>

definition exSupervised :: "node list \<Rightarrow> node" where
  "exSupervised free =
     Element 0 ''SCL'' [(''version'', ''2007''), (''revision'', ''B'')]
       [exPublisher,
        Element 10 ''IED'' [(''name'', ''Sub'')]
          [Element 11 ''Services'' [] [Element 12 ''SupSubscription'' [(''maxGo'', ''2'')] []],
           Element 15 ''LDevice'' [(''inst'', ''LD1'')]
            [Element 17 ''LN'' [(''lnClass'', ''LGOS''), (''inst'', ''1''), (''lnType'', ''LGOS1'')]
              [Element 18 ''DOI'' [(''name'', ''GoCBRef'')]
                [Element 19 ''DAI''
                   [(''name'', ''setSrcRef''), (''valKind'', ''RO''), (''valImport'', ''true'')]
                  [Element 20 ''Val'' [] [TextNode ''PubLD0/LLN0.gcb'']]]],
             Element 21 ''LN'' [(''lnClass'', ''LGOS''), (''inst'', ''2''), (''lnType'', ''LGOS1'')]
               free]]]"

definition exNested :: node where
  "exNested =
     exSupervised
       [Element 22 ''Private'' [(''type'', ''vendor'')]
         [Element 23 ''DOI'' [(''name'', ''GoCBRef'')] []]]"

definition exValHolder :: node where
  "exValHolder =
     exSupervised
       [Element 30 ''Val'' []
         [Element 31 ''LN'' [(''lnClass'', ''LGOS''), (''inst'', ''3''), (''lnType'', ''LGOS1'')]
           [Element 32 ''DOI'' [(''name'', ''GoCBRef'')]
             [Element 33 ''DAI'' [(''name'', ''setSrcRef'')] []]]]]"

text \<open>The control block \<open>gcb2\<close> of the publisher and the subscriber device of a
  document with the layout of \<open>exSupervised\<close>.\<close>

definition gcb2Of :: "node \<Rightarrow> element" where
  "gcb2Of doc = elementAt [doc] [0, 0, 0, 1]"

definition subscriberOf :: "node \<Rightarrow> element" where
  "subscriberOf doc = elementAt [doc] [1]"

text \<open>The numbering of new logical nodes (\<open>minAvailableLogicalNodeInstance\<close> of the
  foundation) is a parameter of the allocator; in the examples it offers instance 3.\<close>

definition exMinAvailable :: "element list \<Rightarrow> string option" where
  "exMinAvailable lns = Some ''3''"

section \<open>Properties of the subscription matcher\<close>

lemma nullish_attrVal: "nullish (attrVal e k) [] = orEmpty (getAttribute e k)"
  by (simp add: attrVal_def orEmpty_def split: option.splits)

lemma nullish_optAttr:
  "nullish (optAttr eo k) [] = orEmpty (Option.bind eo (\<lambda>e. getAttribute e k))"
  by (cases eo) (simp_all add: nullish_attrVal, simp add: orEmpty_def)

text \<open>
  C3, as the code has it: \<open>isSubscribed\<close> holds exactly when the six identifying
  attributes \<open>iedName\<close>, \<open>ldInst\<close>, \<open>lnClass\<close>, \<open>lnInst\<close>, \<open>doName\<close> and \<open>daName\<close>
  are all present on the reference, whatever their values, the empty string included.
\<close>

theorem isSubscribed_present:
  "isSubscribed (Element i t as cs # anc) =
     ({''iedName'', ''ldInst'', ''lnClass'', ''lnInst'', ''doName'', ''daName''} \<subseteq> fst ` set as)"
  by (simp add: isSubscribed_def hasAttribute_def map_of_eq_None_iff)

theorem isSubscribed_present_witness:
  "isSubscribed exExtRef"
proof -
  have e: "exExtRef = Element 30 ''ExtRef'' exExtRefAttrs [] # tl exExtRef"
    by code_simp
  have "{''iedName'', ''ldInst'', ''lnClass'', ''lnInst'', ''doName'', ''daName''}
          \<subseteq> fst ` set exExtRefAttrs"
    by (simp add: exExtRefAttrs_def)
  then have "isSubscribed (Element 30 ''ExtRef'' exExtRefAttrs [] # tl exExtRef)"
    by (simp only: isSubscribed_present)
  then show ?thesis using e by simp
qed

text \<open>
  C3 as stated fails: a reference whose six attributes are present but whose
  \<open>iedName\<close> is empty counts as subscribed.
\<close>

theorem isSubscribed_empty_counterexample:
  "isSubscribed [Element 0 ''ExtRef''
      [(''iedName'', []), (''ldInst'', ''LD0''), (''lnClass'', ''MMXU''), (''lnInst'', ''1''),
       (''doName'', ''A''), (''daName'', ''phsA'')] []]
   \<and> getAttribute [Element 0 ''ExtRef''
      [(''iedName'', []), (''ldInst'', ''LD0''), (''lnClass'', ''MMXU''), (''lnInst'', ''1''),
       (''doName'', ''A''), (''daName'', ''phsA'')] []] ''iedName'' = Some []"
  by (simp add: isSubscribed_def hasAttribute_def)

text \<open>
  C7: \<open>isSubscribedTo\<close> holds exactly when the owner-device attribute of the reference
  equals the name of the device that owns the data point, the remaining identifying
  attributes agree with the data point's (an absent one read as empty on both sides)
  and the edition check holds: always for edition 2003, and otherwise when the declared
  service type is the message type of the kind and the declared source logical device
  instance, prefix, class, instance and control block name are those of the control
  block's logical device, of its \<open>LN0\<close> and of the control block.
\<close>

theorem isSubscribedTo_iff:
  assumes "k = ''GSEControl'' \<or> k = ''SampledValueControl''"
  shows "isSubscribedTo doc k cb d r =
    (attrVal r ''iedName'' = optAttr (Option.bind d (closest [''IED''])) ''name'' \<and>
     (\<forall>a \<in> {''ldInst'', ''prefix'', ''lnClass'', ''lnInst'', ''doName'', ''daName''}.
        orEmpty (Option.bind d (\<lambda>e. getAttribute e a)) = orEmpty (getAttribute r a)) \<and>
     (getSclSchemaVersion doc = ''2003'' \<or>
        (orEmpty (getAttribute r ''serviceType'') = (if k = ''GSEControl'' then ''GOOSE'' else ''SMV'') \<and>
         orEmpty (getAttribute r ''srcLDInst'') =
           orEmpty (Option.bind (Option.bind cb (closest [''LDevice''])) (\<lambda>e. getAttribute e ''inst'')) \<and>
         orEmpty (getAttribute r ''srcPrefix'') =
           orEmpty (Option.bind (Option.bind cb (closest [''LN0''])) (\<lambda>e. getAttribute e ''prefix'')) \<and>
         orEmpty (getAttribute r ''srcLNClass'') =
           orEmpty (Option.bind (Option.bind cb (closest [''LN0''])) (\<lambda>e. getAttribute e ''lnClass'')) \<and>
         orEmpty (getAttribute r ''srcLNInst'') =
           orEmpty (Option.bind (Option.bind cb (closest [''LN0''])) (\<lambda>e. getAttribute e ''inst'')) \<and>
         orEmpty (getAttribute r ''srcCBName'') =
           orEmpty (Option.bind cb (\<lambda>e. getAttribute e ''name'')))))"
  using assms
  by (auto simp add: isSubscribedTo_def checkEditionSpecificRequirements_def sameAttributeValue_def
      sameAttributeValueDiffName_def nullish_attrVal nullish_optAttr Let_def)

theorem isSubscribedTo_iff_witness:
  "isSubscribedTo exMatchDoc ''GSEControl'' (Some (exGse 0)) (Some exFcda) exExtRef
   \<and> \<not> isSubscribedTo exMatchDoc ''GSEControl'' (Some (exGse 1)) (Some exFcda) exExtRef
   \<and> getSclSchemaVersion exMatchDoc = ''2007B''"
proof -
  have k: "''GSEControl'' = ''GSEControl'' \<or> ''GSEControl'' = ''SampledValueControl''" by simp
  have 1: "attrVal exExtRef ''iedName'' =
        optAttr (Option.bind (Some exFcda) (closest [''IED''])) ''name''"
    by code_simp
  have 2: "\<forall>a \<in> {''ldInst'', ''prefix'', ''lnClass'', ''lnInst'', ''doName'', ''daName''}.
        orEmpty (Option.bind (Some exFcda) (\<lambda>e. getAttribute e a)) =
        orEmpty (getAttribute exExtRef a)"
    by code_simp
  have 3: "orEmpty (getAttribute exExtRef ''serviceType'') = ''GOOSE''"
    by code_simp
  have 4: "orEmpty (getAttribute exExtRef ''srcLDInst'') =
           orEmpty (Option.bind (Option.bind (Some (exGse 0)) (closest [''LDevice'']))
                      (\<lambda>e. getAttribute e ''inst''))"
    by code_simp
  have 5: "orEmpty (getAttribute exExtRef ''srcPrefix'') =
           orEmpty (Option.bind (Option.bind (Some (exGse 0)) (closest [''LN0'']))
                      (\<lambda>e. getAttribute e ''prefix''))"
    by code_simp
  have 6: "orEmpty (getAttribute exExtRef ''srcLNClass'') =
           orEmpty (Option.bind (Option.bind (Some (exGse 0)) (closest [''LN0'']))
                      (\<lambda>e. getAttribute e ''lnClass''))"
    by code_simp
  have 7: "orEmpty (getAttribute exExtRef ''srcLNInst'') =
           orEmpty (Option.bind (Option.bind (Some (exGse 0)) (closest [''LN0'']))
                      (\<lambda>e. getAttribute e ''inst''))"
    by code_simp
  have 8: "orEmpty (getAttribute exExtRef ''srcCBName'') =
           orEmpty (Option.bind (Some (exGse 0)) (\<lambda>e. getAttribute e ''name''))"
    by code_simp
  have 9: "orEmpty (getAttribute exExtRef ''srcCBName'') \<noteq>
           orEmpty (Option.bind (Some (exGse 1)) (\<lambda>e. getAttribute e ''name''))"
    by code_simp
  have v: "getSclSchemaVersion exMatchDoc = ''2007B''"
    by code_simp
  have a: "isSubscribedTo exMatchDoc ''GSEControl'' (Some (exGse 0)) (Some exFcda)
             exExtRef"
    unfolding isSubscribedTo_iff [OF k] using 1 2 3 4 5 6 7 8 by simp
  have b: "\<not> isSubscribedTo exMatchDoc ''GSEControl'' (Some (exGse 1)) (Some exFcda)
             exExtRef"
    unfolding isSubscribedTo_iff [OF k] using 9 v by simp
  show ?thesis using a b v by simp
qed

lemma attrVal_Some: "getAttribute e k = Some v \<Longrightarrow> attrVal e k = Str v"
  by (simp add: attrVal_def)

text \<open>
  C2, as the code has it: \<open>controlBlockReference\<close> returns null exactly when the
  control block is absent or none of the control block name, the device name, the
  logical device instance and the logical node class is present and non-empty; when
  the logical node, the logical device and the device are found and the four values
  are present (not all of them empty), the result is
  \<open>{deviceName}{logicalDeviceInstance}/{prefix}{lnClass}{lnInstance}.{cbName}\<close>.
\<close>

theorem controlBlockReference_cases:
  "((controlBlockReference cbo = None) =
      (cbo = None \<or>
       (\<exists>cb. cbo = Some cb \<and> falsy (attrVal cb ''name'') \<and>
          falsy (optAttr (closest [''IED''] cb) ''name'') \<and>
          falsy (optAttr (closest [''LDevice''] cb) ''inst'') \<and>
          falsy (optAttr (closest [''LN'', ''LN0''] cb) ''lnClass'')))) \<and>
   (\<forall>cb ln ld ied lnClass ldInst iedName cbName.
      cbo = Some cb \<and>
      closest [''LN'', ''LN0''] cb = Some ln \<and> getAttribute ln ''lnClass'' = Some lnClass \<and>
      closest [''LDevice''] cb = Some ld \<and> getAttribute ld ''inst'' = Some ldInst \<and>
      closest [''IED''] cb = Some ied \<and> getAttribute ied ''name'' = Some iedName \<and>
      getAttribute cb ''name'' = Some cbName \<and>
      (cbName \<noteq> [] \<or> iedName \<noteq> [] \<or> ldInst \<noteq> [] \<or> lnClass \<noteq> []) \<longrightarrow>
      controlBlockReference cbo =
        Some (iedName @ ldInst @ ''/'' @ orEmpty (getAttribute ln ''prefix'') @ lnClass @
              orEmpty (getAttribute ln ''inst'') @ ''.'' @ cbName))"
proof (intro conjI allI impI)
  show "(controlBlockReference cbo = None) =
      (cbo = None \<or>
       (\<exists>cb. cbo = Some cb \<and> falsy (attrVal cb ''name'') \<and>
          falsy (optAttr (closest [''IED''] cb) ''name'') \<and>
          falsy (optAttr (closest [''LDevice''] cb) ''inst'') \<and>
          falsy (optAttr (closest [''LN'', ''LN0''] cb) ''lnClass'')))"
    by (cases cbo) (auto simp: controlBlockReference_def Let_def)
next
  fix cb ln ld ied lnClass ldInst iedName cbName
  assume h: "cbo = Some cb \<and>
      closest [''LN'', ''LN0''] cb = Some ln \<and> getAttribute ln ''lnClass'' = Some lnClass \<and>
      closest [''LDevice''] cb = Some ld \<and> getAttribute ld ''inst'' = Some ldInst \<and>
      closest [''IED''] cb = Some ied \<and> getAttribute ied ''name'' = Some iedName \<and>
      getAttribute cb ''name'' = Some cbName \<and>
      (cbName \<noteq> [] \<or> iedName \<noteq> [] \<or> ldInst \<noteq> [] \<or> lnClass \<noteq> [])"
  then show "controlBlockReference cbo =
        Some (iedName @ ldInst @ ''/'' @ orEmpty (getAttribute ln ''prefix'') @ lnClass @
              orEmpty (getAttribute ln ''inst'') @ ''.'' @ cbName)"
    by (auto simp: controlBlockReference_def Let_def attrVal_Some nullish_attrVal
        simp del: closest.simps)
qed

theorem controlBlockReference_cases_witness:
  "controlBlockReference (Some (exControl [] 0)) = Some ''PubLD0/LLN0.gcb''"
proof -
  have 1: "closest [''LN'', ''LN0''] (exControl [] 0) = Some (elementAt [exDoc []] [0, 0, 0])"
    by code_simp
  have 2: "getAttribute (elementAt [exDoc []] [0, 0, 0]) ''lnClass'' = Some ''LLN0''"
    by code_simp
  have 3: "closest [''LDevice''] (exControl [] 0) = Some (elementAt [exDoc []] [0, 0])"
    by code_simp
  have 4: "getAttribute (elementAt [exDoc []] [0, 0]) ''inst'' = Some ''LD0''"
    by code_simp
  have 5: "closest [''IED''] (exControl [] 0) = Some (elementAt [exDoc []] [0])"
    by code_simp
  have 6: "getAttribute (elementAt [exDoc []] [0]) ''name'' = Some ''Pub''"
    by code_simp
  have 7: "getAttribute (exControl [] 0) ''name'' = Some ''gcb''"
    by code_simp
  have 8: "orEmpty (getAttribute (elementAt [exDoc []] [0, 0, 0]) ''prefix'') = []"
    by code_simp
  have 9: "orEmpty (getAttribute (elementAt [exDoc []] [0, 0, 0]) ''inst'') = []"
    by code_simp
  have h: "Some (exControl [] 0) = Some (exControl [] 0) \<and>
      closest [''LN'', ''LN0''] (exControl [] 0) = Some (elementAt [exDoc []] [0, 0, 0]) \<and>
      getAttribute (elementAt [exDoc []] [0, 0, 0]) ''lnClass'' = Some ''LLN0'' \<and>
      closest [''LDevice''] (exControl [] 0) = Some (elementAt [exDoc []] [0, 0]) \<and>
      getAttribute (elementAt [exDoc []] [0, 0]) ''inst'' = Some ''LD0'' \<and>
      closest [''IED''] (exControl [] 0) = Some (elementAt [exDoc []] [0]) \<and>
      getAttribute (elementAt [exDoc []] [0]) ''name'' = Some ''Pub'' \<and>
      getAttribute (exControl [] 0) ''name'' = Some ''gcb'' \<and>
      (''gcb'' \<noteq> [] \<or> ''Pub'' \<noteq> [] \<or> ''LD0'' \<noteq> [] \<or> ''LLN0'' \<noteq> [])"
    by (intro conjI refl 1 2 3 4 5 6 7) simp
  have "controlBlockReference (Some (exControl [] 0)) =
        Some (''Pub'' @ ''LD0'' @ ''/'' @
              orEmpty (getAttribute (elementAt [exDoc []] [0, 0, 0]) ''prefix'') @ ''LLN0'' @
              orEmpty (getAttribute (elementAt [exDoc []] [0, 0, 0]) ''inst'') @ ''.'' @ ''gcb'')"
    by (rule controlBlockReference_cases [of "Some (exControl [] 0)", THEN conjunct2,
          rule_format, OF h])
  then show ?thesis by (simp add: 8 9 del: elementAt.simps)
qed

text \<open>
  C2 as stated fails: the device of this control block carries no name, one of the
  four components cannot be resolved, and the result is a string, not null.
\<close>

theorem controlBlockReference_unnamed_counterexample:
  "controlBlockReference (Some (elementAt [exUnnamed] [0, 0, 0, 0])) = Some ''nullLD0/LLN0.gcb''
   \<and> closest [''IED''] (elementAt [exUnnamed] [0, 0, 0, 0]) = Some (elementAt [exUnnamed] [0])
   \<and> getAttribute (elementAt [exUnnamed] [0]) ''name'' = None"
  by code_simp

section \<open>Properties of the supervision remover\<close>

lemma subtree_suffix:
  "x \<in> set (subtree anc n) \<Longrightarrow> \<exists>pre. x = pre @ anc \<and> pre \<noteq> []"
proof (induction n arbitrary: anc x)
  case (Element i t as cs)
  then show ?case
  proof (cases "x = Element i t as cs # anc")
    case True
    then show ?thesis by (intro exI[of _ "[Element i t as cs]"]) simp
  next
    case False
    with Element.prems obtain c where c: "c \<in> set cs" "x \<in> set (subtree (Element i t as cs # anc) c)"
      by auto
    from Element.IH[OF c] obtain pre where "x = pre @ Element i t as cs # anc" "pre \<noteq> []" by blast
    then show ?thesis by (intro exI[of _ "pre @ [Element i t as cs]"]) simp
  qed
next
  case (TextNode s)
  then show ?case by simp
qed

lemma descendants_suffix:
  "x \<in> set (descendants e) \<Longrightarrow> \<exists>pre. x = pre @ e \<and> pre \<noteq> [] \<and> e \<noteq> []"
  by (cases e) (auto simp: descendants_def dest: subtree_suffix)

lemma cbRef_shape:
  assumes "matchesComplex sc (selCbRef lnTag st sn) v"
  shows "\<exists>val dai doi ln rest. v = val # dai # doi # ln # rest \<and> tagOf val = Some ''Val''
           \<and> tagOf dai = Some ''DAI'' \<and> tagOf doi = Some ''DOI'' \<and> tagOf ln = Some lnTag
           \<and> map_of (attrsOf ln) ''lnClass'' = Some st"
proof -
  from assms obtain val r1 where v: "v = val # r1" "tagOf val = Some ''Val''"
    and m1: "matchesRest sc (snd (selCbRef lnTag st sn)) r1"
    by (cases v) (auto simp: matchesComplex_def selCbRef_def)
  from m1 obtain dai r2 where r1: "r1 = dai # r2" "tagOf dai = Some ''DAI''"
    and m2: "matchesRest sc [(Child, Sel ''DOI'' [(''name'', sn)]), (Child, Sel lnTag [(''lnClass'', st)])] r2"
    by (cases r1) (auto simp: selCbRef_def)
  from m2 obtain doi r3 where r2: "r2 = doi # r3" "tagOf doi = Some ''DOI''"
    and m3: "matchesRest sc [(Child, Sel lnTag [(''lnClass'', st)])] r3"
    by (cases r2) auto
  from m3 obtain ln rest where r3: "r3 = ln # rest" "tagOf ln = Some lnTag"
      "map_of (attrsOf ln) ''lnClass'' = Some st"
    by (cases r3) auto
  show ?thesis using v r1 r2 r3 by blast
qed

lemma getSupervisionCbRefs_shape:
  assumes "v \<in> set (getSupervisionCbRefs ied tag)"
  shows "\<exists>val dai doi ln rest. v = val # dai # doi # ln # rest \<and> tagOf val = Some ''Val''
           \<and> tagOf dai = Some ''DAI'' \<and> tagOf doi = Some ''DOI''
           \<and> (tagOf ln = Some ''LN'' \<or> tagOf ln = Some ''LN0'')
           \<and> map_of (attrsOf ln) ''lnClass'' = Some (supervisionTypeOf tag)"
proof -
  from assms have "matchesComplex (elemId ied) (selCbRef ''LN'' (supervisionTypeOf tag) (supervisionNameOf (supervisionTypeOf tag))) v
     \<or> matchesComplex (elemId ied) (selCbRef ''LN0'' (supervisionTypeOf tag) (supervisionNameOf (supervisionTypeOf tag))) v"
    by (auto simp: getSupervisionCbRefs_def querySelectorAll_def Let_def)
  then show ?thesis
    using cbRef_shape by (elim disjE) blast+
qed

lemma getSupervisionCbRefs_parent:
  assumes "v \<in> set (getSupervisionCbRefs ied tag)" "v = val # dai # doi # ln # rest"
    "tagOf dai = Some ''DAI''" "tagOf doi = Some ''DOI''" "tagOf ln = Some ''LN'' \<or> tagOf ln = Some ''LN0''"
    "elemTag ied = ''IED''"
  shows "rest \<noteq> []"
proof
  assume "rest = []"
  from assms(1) have "v \<in> set (descendants ied)"
    by (simp add: getSupervisionCbRefs_def querySelectorAll_def Let_def)
  then obtain pre where p: "v = pre @ ied" "pre \<noteq> []" "ied \<noteq> []"
    using descendants_suffix by blast
  with assms(2) \<open>rest = []\<close> have "pre @ ied = [val, dai, doi, ln]" by simp
  with p have "hd ied \<in> {dai, doi, ln}"
    by (cases pre; cases ied) (auto simp: Cons_eq_append_conv append_eq_Cons_conv)
  with assms(3-6) p(3) show False
    by (cases ied) (auto simp: elemTag_def)
qed

lemma closest_ln:
  assumes "tagOf val = Some ''Val''" "tagOf dai = Some ''DAI''" "tagOf doi = Some ''DOI''"
    "tagOf ln = Some ''LN'' \<or> tagOf ln = Some ''LN0''"
  shows "closest [''LN0'', ''LN''] (val # dai # doi # ln # rest) = Some (ln # rest)"
    and "closest [''DOI''] (val # dai # doi # ln # rest) = Some (doi # ln # rest)"
  using assms by auto

lemma querySelector_None_iff:
  "(querySelector sels e = None) =
   (\<forall>d \<in> set (descendants e). \<not> list_ex (\<lambda>s. matchesComplex (elemId e) s d) sels)"
proof -
  have "(querySelector sels e = None) = (querySelectorAll sels e = [])"
    by (simp add: querySelector_def split: list.splits)
  then show ?thesis
    by (simp add: querySelectorAll_def filter_empty_conv)
qed

lemma marker_iff:
  "(querySelector [(Sel ''Private'' [(''type'', ''OpenSCD.create'')], [])] e \<noteq> None) =
   (\<exists>p \<in> set (descendants e). elemTag p = ''Private'' \<and> getAttribute p ''type'' = Some ''OpenSCD.create'')"
proof -
  have "\<And>p. matchesComplex (elemId e) (Sel ''Private'' [(''type'', ''OpenSCD.create'')], []) p =
     (elemTag p = ''Private'' \<and> getAttribute p ''type'' = Some ''OpenSCD.create'')"
    subgoal for p
      by (cases p; cases "hd p") (auto simp: matchesComplex_def elemTag_def)
    done
  then show ?thesis
    by (simp add: querySelector_None_iff)
qed

text \<open>
  C4: for a control block and a subscriber device (an \<open>IED\<close> element),
  \<open>removeSubscriptionSupervision\<close> returns the empty batch when no supervision value
  of the device has the control block's reference string as its text. Otherwise the
  first such value is a \<open>Val\<close> in a \<open>DAI\<close> in a \<open>DOI\<close> in a logical node of the
  supervision class, and the batch is the single removal of that logical node when it
  holds the marker \<open>Private[type="OpenSCD.create"]\<close>, and the single removal of
  the \<open>DOI\<close>, a child of the logical node, when it does not.
\<close>

theorem removeSubscriptionSupervision_record:
  assumes "elemTag ied = ''IED''"
  shows "((\<forall>v \<in> set (getSupervisionCbRefs ied (elemTag cb)).
             Some (elemText v) \<noteq> controlBlockReference (Some cb)) \<longrightarrow>
          removeSubscriptionSupervision (Some cb) (Some ied) = []) \<and>
         (\<forall>v. find (\<lambda>val. Some (elemText val) = controlBlockReference (Some cb))
                 (getSupervisionCbRefs ied (elemTag cb)) = Some v \<longrightarrow>
            (\<exists>val dai doi ln rest.
               v = val # dai # doi # ln # rest \<and> rest \<noteq> [] \<and>
               tagOf val = Some ''Val'' \<and> tagOf dai = Some ''DAI'' \<and> tagOf doi = Some ''DOI'' \<and>
               (tagOf ln = Some ''LN'' \<or> tagOf ln = Some ''LN0'') \<and>
               map_of (attrsOf ln) ''lnClass'' = Some (supervisionTypeOf (elemTag cb)) \<and>
               removeSubscriptionSupervision (Some cb) (Some ied) =
                 (if \<exists>p \<in> set (descendants (ln # rest)).
                        elemTag p = ''Private'' \<and> getAttribute p ''type'' = Some ''OpenSCD.create''
                  then [Remove (nodeId ln)] else [Remove (nodeId doi)])))"
proof (intro conjI impI allI)
  assume "\<forall>v \<in> set (getSupervisionCbRefs ied (elemTag cb)).
             Some (elemText v) \<noteq> controlBlockReference (Some cb)"
  then have "find (\<lambda>val. Some (elemText val) = controlBlockReference (Some cb))
                 (getSupervisionCbRefs ied (elemTag cb)) = None"
    by (simp add: find_None_iff)
  then show "removeSubscriptionSupervision (Some cb) (Some ied) = []"
    by (simp add: removeSubscriptionSupervision_def)
next
  fix v
  assume f: "find (\<lambda>val. Some (elemText val) = controlBlockReference (Some cb))
                 (getSupervisionCbRefs ied (elemTag cb)) = Some v"
  then have vin: "v \<in> set (getSupervisionCbRefs ied (elemTag cb))"
    by (auto simp: find_Some_iff)
  from getSupervisionCbRefs_shape[OF vin] obtain val dai doi ln rest where
    s: "v = val # dai # doi # ln # rest" "tagOf val = Some ''Val''" "tagOf dai = Some ''DAI''"
       "tagOf doi = Some ''DOI''" "tagOf ln = Some ''LN'' \<or> tagOf ln = Some ''LN0''"
       "map_of (attrsOf ln) ''lnClass'' = Some (supervisionTypeOf (elemTag cb))"
    by blast
  have r: "rest \<noteq> []"
    using getSupervisionCbRefs_parent[OF vin s(1) s(3) s(4) s(5) assms] .
  have p: "parentElement (ln # rest) \<noteq> None" using r by (cases rest) auto
  have "removeSubscriptionSupervision (Some cb) (Some ied) =
                 (if \<exists>p \<in> set (descendants (ln # rest)).
                        elemTag p = ''Private'' \<and> getAttribute p ''type'' = Some ''OpenSCD.create''
                  then [Remove (nodeId ln)] else [Remove (nodeId doi)])"
    using f p closest_ln[OF s(2) s(3) s(4) s(5), of rest] marker_iff[of "ln # rest"]
    by (auto simp add: removeSubscriptionSupervision_def s(1) elemId_def simp del: closest.simps)
  with s r show "\<exists>val dai doi ln rest.
               v = val # dai # doi # ln # rest \<and> rest \<noteq> [] \<and>
               tagOf val = Some ''Val'' \<and> tagOf dai = Some ''DAI'' \<and> tagOf doi = Some ''DOI'' \<and>
               (tagOf ln = Some ''LN'' \<or> tagOf ln = Some ''LN0'') \<and>
               map_of (attrsOf ln) ''lnClass'' = Some (supervisionTypeOf (elemTag cb)) \<and>
               removeSubscriptionSupervision (Some cb) (Some ied) =
                 (if \<exists>p \<in> set (descendants (ln # rest)).
                        elemTag p = ''Private'' \<and> getAttribute p ''type'' = Some ''OpenSCD.create''
                  then [Remove (nodeId ln)] else [Remove (nodeId doi)])"
    by blast
qed

theorem removeSubscriptionSupervision_record_witness:
  "elemTag (exIed ''PubLD0/LLN0.gcb2'') = ''IED'' \<and>
   removeSubscriptionSupervision (Some (exControl ''PubLD0/LLN0.gcb2'' 2))
     (Some (exIed ''PubLD0/LLN0.gcb2'')) = [] \<and>
   removeSubscriptionSupervision (Some (exControl ''PubLD0/LLN0.gcb2'' 1))
     (Some (exIed ''PubLD0/LLN0.gcb2'')) = [Remove (Some 21)] \<and>
   removeSubscriptionSupervision (Some (exControl ''PubLD0/LLN0.gcb2'' 0))
     (Some (exIed ''PubLD0/LLN0.gcb2'')) = [Remove (Some 18)]"
proof -
  have t: "elemTag (exIed ''PubLD0/LLN0.gcb2'') = ''IED''"
    by code_simp
  have n: "\<forall>v \<in> set (getSupervisionCbRefs (exIed ''PubLD0/LLN0.gcb2'')
                        (elemTag (exControl ''PubLD0/LLN0.gcb2'' 2))).
             Some (elemText v) \<noteq> controlBlockReference (Some (exControl ''PubLD0/LLN0.gcb2'' 2))"
    by code_simp
  have a: "removeSubscriptionSupervision (Some (exControl ''PubLD0/LLN0.gcb2'' 2))
     (Some (exIed ''PubLD0/LLN0.gcb2'')) = []"
    using removeSubscriptionSupervision_record [OF t, of "exControl ''PubLD0/LLN0.gcb2'' 2",
        THEN conjunct1] n by (rule mp)
  have b: "removeSubscriptionSupervision (Some (exControl ''PubLD0/LLN0.gcb2'' 1))
     (Some (exIed ''PubLD0/LLN0.gcb2'')) = [Remove (Some 21)]"
    by code_simp
  have c: "removeSubscriptionSupervision (Some (exControl ''PubLD0/LLN0.gcb2'' 0))
     (Some (exIed ''PubLD0/LLN0.gcb2'')) = [Remove (Some 18)]"
    by code_simp
  show ?thesis using t a b c by (intro conjI)
qed

text \<open>
  C10: \<open>removeSubscriptionSupervision\<close> returns at most one action, a removal; it
  returns the empty batch when the control block or the device is absent, when no
  supervision value of the device has the control block's reference string as its
  text, and when the value found has no enclosing logical node or its logical node
  has no parent element.
\<close>

theorem removeSubscriptionSupervision_batch:
  "length (removeSubscriptionSupervision cbo iedo) \<le> 1 \<and>
   (\<forall>e \<in> set (removeSubscriptionSupervision cbo iedo). \<exists>n. e = Remove n) \<and>
   (cbo = None \<or> iedo = None \<longrightarrow> removeSubscriptionSupervision cbo iedo = []) \<and>
   (\<forall>cb ied. cbo = Some cb \<and> iedo = Some ied \<and>
      (\<forall>v \<in> set (getSupervisionCbRefs ied (elemTag cb)).
         Some (elemText v) \<noteq> controlBlockReference (Some cb)) \<longrightarrow>
      removeSubscriptionSupervision cbo iedo = []) \<and>
   (\<forall>cb ied v. cbo = Some cb \<and> iedo = Some ied \<and>
      find (\<lambda>val. Some (elemText val) = controlBlockReference (Some cb))
        (getSupervisionCbRefs ied (elemTag cb)) = Some v \<and>
      (closest [''LN0'', ''LN''] v = None \<or>
       (\<exists>ln. closest [''LN0'', ''LN''] v = Some ln \<and> parentElement ln = None)) \<longrightarrow>
      removeSubscriptionSupervision cbo iedo = [])"
proof (intro conjI allI impI ballI)
  show "length (removeSubscriptionSupervision cbo iedo) \<le> 1"
    by (simp add: removeSubscriptionSupervision_def split: option.splits)
next
  fix e assume "e \<in> set (removeSubscriptionSupervision cbo iedo)"
  then show "\<exists>n. e = Remove n"
    by (auto simp: removeSubscriptionSupervision_def split: option.splits if_splits)
next
  assume "cbo = None \<or> iedo = None"
  then show "removeSubscriptionSupervision cbo iedo = []"
    by (auto simp: removeSubscriptionSupervision_def split: option.splits)
next
  fix cb ied
  assume h: "cbo = Some cb \<and> iedo = Some ied \<and>
      (\<forall>v \<in> set (getSupervisionCbRefs ied (elemTag cb)).
         Some (elemText v) \<noteq> controlBlockReference (Some cb))"
  then have "find (\<lambda>val. Some (elemText val) = controlBlockReference (Some cb))
                 (getSupervisionCbRefs ied (elemTag cb)) = None"
    by (simp add: find_None_iff)
  with h show "removeSubscriptionSupervision cbo iedo = []"
    by (simp add: removeSubscriptionSupervision_def)
next
  fix cb ied v
  assume "cbo = Some cb \<and> iedo = Some ied \<and>
      find (\<lambda>val. Some (elemText val) = controlBlockReference (Some cb))
        (getSupervisionCbRefs ied (elemTag cb)) = Some v \<and>
      (closest [''LN0'', ''LN''] v = None \<or>
       (\<exists>ln. closest [''LN0'', ''LN''] v = Some ln \<and> parentElement ln = None))"
  then show "removeSubscriptionSupervision cbo iedo = []"
    by (auto simp: removeSubscriptionSupervision_def simp del: closest.simps)
qed

theorem removeSubscriptionSupervision_batch_witness:
  "removeSubscriptionSupervision None (Some (exIed [])) = [] \<and>
   removeSubscriptionSupervision (Some (exControl [] 0)) (Some [exRootLn]) = [] \<and>
   find (\<lambda>val. Some (elemText val) = controlBlockReference (Some (exControl [] 0)))
        (getSupervisionCbRefs [exRootLn] (elemTag (exControl [] 0))) =
     Some (elementAt [exRootLn] [0, 0, 0]) \<and>
   length (removeSubscriptionSupervision (Some (exControl [] 0)) (Some (exIed []))) = 1"
proof -
  note th = removeSubscriptionSupervision_batch
  have a: "removeSubscriptionSupervision None (Some (exIed [])) = []"
    using th [of None "Some (exIed [])", THEN conjunct2, THEN conjunct2, THEN conjunct1]
    by simp
  have f: "find (\<lambda>val. Some (elemText val) = controlBlockReference (Some (exControl [] 0)))
        (getSupervisionCbRefs [exRootLn] (elemTag (exControl [] 0))) =
     Some (elementAt [exRootLn] [0, 0, 0])"
    by code_simp
  have c: "closest [''LN0'', ''LN''] (elementAt [exRootLn] [0, 0, 0]) = Some [exRootLn]"
    by code_simp
  have p: "parentElement [exRootLn] = None" by simp
  have h: "Some (exControl [] 0) = Some (exControl [] 0) \<and> Some [exRootLn] = Some [exRootLn] \<and>
      find (\<lambda>val. Some (elemText val) = controlBlockReference (Some (exControl [] 0)))
        (getSupervisionCbRefs [exRootLn] (elemTag (exControl [] 0))) =
        Some (elementAt [exRootLn] [0, 0, 0]) \<and>
      (closest [''LN0'', ''LN''] (elementAt [exRootLn] [0, 0, 0]) = None \<or>
       (\<exists>ln. closest [''LN0'', ''LN''] (elementAt [exRootLn] [0, 0, 0]) = Some ln \<and>
          parentElement ln = None))"
    using f c p by blast
  have b: "removeSubscriptionSupervision (Some (exControl [] 0)) (Some [exRootLn]) = []"
    by (rule th [of "Some (exControl [] 0)" "Some [exRootLn]", THEN conjunct2, THEN conjunct2,
          THEN conjunct2, THEN conjunct2, rule_format, OF h])
  have l: "length (removeSubscriptionSupervision (Some (exControl [] 0)) (Some (exIed []))) = 1"
    by code_simp
  show ?thesis using a b f l by (intro conjI)
qed

section \<open>Properties of the supervision allocator\<close>

lemma selLn_matches:
  "matchesComplex sc (selLn st) e = (elemTag e = ''LN'' \<and> getAttribute e ''lnClass'' = Some st)"
  by (cases e; cases "hd e") (auto simp: matchesComplex_def selLn_def elemTag_def)



section \<open>Instantiation followed by removal\<close>

subsection \<open>Paths of a document\<close>

text \<open>A handle of a document is the reversed path from the root to its element.\<close>

lemma subtree_iff:
  "isElement t \<Longrightarrow> (x \<in> set (subtree anc t)) = (\<exists>ns. downPath t ns \<and> x = rev ns @ t # anc)"
proof (induction t arbitrary: anc x)
  case (Element i tg as cs)
  let ?t = "Element i tg as cs"
  show ?case
  proof
    assume "x \<in> set (subtree anc ?t)"
    then consider "x = ?t # anc" | c where "c \<in> set cs" "x \<in> set (subtree (?t # anc) c)"
      by auto
    then show "\<exists>ns. downPath ?t ns \<and> x = rev ns @ ?t # anc"
    proof cases
      case 1
      then show ?thesis by (intro exI[of _ "[]"]) simp
    next
      case 2
      from 2(2) have e: "isElement c" by (cases c) auto
      from Element.IH[OF 2(1) e] 2(2) obtain ns where "downPath c ns" "x = rev ns @ c # ?t # anc"
        by blast
      with 2(1) e show ?thesis by (intro exI[of _ "c # ns"]) simp
    qed
  next
    assume "\<exists>ns. downPath ?t ns \<and> x = rev ns @ ?t # anc"
    then obtain ns where ns: "downPath ?t ns" "x = rev ns @ ?t # anc" by blast
    show "x \<in> set (subtree anc ?t)"
    proof (cases ns)
      case Nil
      with ns show ?thesis by simp
    next
      case (Cons c ms)
      with ns have c: "isElement c" "c \<in> set cs" "downPath c ms" by auto
      from Element.IH[OF c(2) c(1), of x "?t # anc"] c(3) ns(2) Cons
      have "x \<in> set (subtree (?t # anc) c)" by auto
      with c(2) show ?thesis by auto
    qed
  qed
next
  case (TextNode s)
  then show ?case by simp
qed

lemma descendants_iff:
  "isElement t0 \<Longrightarrow>
   (x \<in> set (descendants (t0 # anc))) =
   (\<exists>ns. ns \<noteq> [] \<and> downPath t0 ns \<and> x = rev ns @ t0 # anc)"
proof
  assume t: "isElement t0" and "x \<in> set (descendants (t0 # anc))"
  then obtain c where c: "c \<in> set (kids t0)" "x \<in> set (subtree (t0 # anc) c)"
    by (auto simp: descendants_def)
  from c(2) have e: "isElement c" by (cases c) auto
  from c(2) subtree_iff[OF e] obtain ns where "downPath c ns" "x = rev ns @ c # t0 # anc"
    by blast
  with c(1) e show "\<exists>ns. ns \<noteq> [] \<and> downPath t0 ns \<and> x = rev ns @ t0 # anc"
    by (intro exI[of _ "c # ns"]) simp
next
  assume t: "isElement t0" and "\<exists>ns. ns \<noteq> [] \<and> downPath t0 ns \<and> x = rev ns @ t0 # anc"
  then obtain c ms where c: "isElement c" "c \<in> set (kids t0)" "downPath c ms"
      "x = rev ms @ c # t0 # anc"
    by (metis append.assoc append_Cons append_Nil downPath.simps(2) neq_Nil_conv rev.simps(2))
  then have "x \<in> set (subtree (t0 # anc) c)" using subtree_iff[OF c(1)] by blast
  with c(2) show "x \<in> set (descendants (t0 # anc))" by (auto simp: descendants_def)
qed

lemma downPath_append:
  "downPath t (a @ b) = (downPath t a \<and> downPath (last (t # a)) b)"
  by (induction a arbitrary: t) auto

lemma downPath_elements: "downPath t ns \<Longrightarrow> n \<in> set ns \<Longrightarrow> isElement n"
  by (induction ns arbitrary: t) auto

subsection \<open>Edits along a path\<close>

text \<open>An insertion keeps every path of the document and adds the paths through the new
  node; a removal keeps the paths that avoid the removed node. Identities that are
  distinct in the document determine the path of a node.\<close>

lemma isElement_nodeId: "isElement n = (nodeId n \<noteq> None)"
  by (cases n) auto

lemma nodeHead_isElement: "nodeHead a = nodeHead b \<Longrightarrow> isElement a = isElement b"
  by (simp add: isElement_nodeId nodeHead_def)

lemma nodeHead_insertNode: "nodeHead (insertNode p n r t) = nodeHead t"
  by (cases t) (auto simp: nodeHead_def)

lemma nodeHead_removeNode: "nodeHead (removeNode i t) = nodeHead t"
  by (cases t) (auto simp: nodeHead_def)

lemma set_insertBefore: "c \<in> set cs \<Longrightarrow> c \<in> set (insertBefore n r cs)"
proof (cases r)
  case None
  then show "c \<in> set cs \<Longrightarrow> ?thesis" by (simp add: insertBefore_def)
next
  case (Some i)
  assume c: "c \<in> set cs"
  have "set cs = set (takeWhile (\<lambda>c. nodeId c \<noteq> Some i) cs) \<union> set (dropWhile (\<lambda>c. nodeId c \<noteq> Some i) cs)"
    by (metis set_append takeWhile_dropWhile_id)
  with c Some show ?thesis by (auto simp: insertBefore_def)
qed

lemma ins_pres:
  "downPath t ns \<Longrightarrow>
   \<exists>ns'. downPath (insertNode p n r t) ns' \<and> map nodeHead ns' = map nodeHead ns"
proof (induction ns arbitrary: t)
  case Nil
  show ?case by (intro exI[of _ "[]"]) simp
next
  case (Cons c ns)
  then obtain j tg as cs where t: "t = Element j tg as cs" by (cases t) auto
  from Cons.prems t have c: "isElement c" "c \<in> set cs" "downPath c ns" by auto
  show ?case
  proof (cases "j = p")
    case True
    with t c show ?thesis
      by (intro exI[of _ "c # ns"]) (simp add: set_insertBefore)
  next
    case False
    from Cons.IH[OF c(3)] obtain ns' where
      ns': "downPath (insertNode p n r c) ns'" "map nodeHead ns' = map nodeHead ns" by blast
    have "isElement (insertNode p n r c)"
      using c(1) nodeHead_isElement[OF nodeHead_insertNode] by blast
    with False t c ns' show ?thesis
      by (intro exI[of _ "insertNode p n r c # ns'"]) (simp add: nodeHead_insertNode)
  qed
qed

lemma ins_new:
  "downPath t ns \<Longrightarrow> nodeId (last (t # ns)) = Some p \<Longrightarrow>
   Some p \<notin> nodeId ` set (butlast (t # ns)) \<Longrightarrow>
   \<exists>ns'. downPath (insertNode p n None t) (ns' @ [n]) = isElement n \<and>
         map nodeHead ns' = map nodeHead ns"
proof (induction ns arbitrary: t)
  case Nil
  then obtain tg as cs where t: "t = Element p tg as cs" by (cases t) auto
  show ?case using t by (intro exI[of _ "[]"]) (simp add: insertBefore_def)
next
  case (Cons c ns)
  then obtain j tg as cs where t: "t = Element j tg as cs" by (cases t) auto
  from Cons.prems t have c: "isElement c" "c \<in> set cs" "downPath c ns" and j: "j \<noteq> p"
    by auto
  from Cons.prems have l: "nodeId (last (c # ns)) = Some p"
      "Some p \<notin> nodeId ` set (butlast (c # ns))" by auto
  from Cons.IH[OF c(3) l] obtain ns' where
    ns': "downPath (insertNode p n None c) (ns' @ [n]) = isElement n"
         "map nodeHead ns' = map nodeHead ns" by blast
  have "isElement (insertNode p n None c)"
    using c(1) nodeHead_isElement[OF nodeHead_insertNode] by blast
  with j t c ns' show ?case
    by (intro exI[of _ "insertNode p n None c # ns'"])
       (simp add: nodeHead_insertNode)
qed

lemma rem_pres:
  "downPath t ns \<Longrightarrow> Some i \<notin> nodeId ` set ns \<Longrightarrow>
   \<exists>ns'. downPath (removeNode i t) ns' \<and> map nodeHead ns' = map nodeHead ns"
proof (induction ns arbitrary: t)
  case Nil
  show ?case by (intro exI[of _ "[]"]) simp
next
  case (Cons c ns)
  then obtain j tg as cs where t: "t = Element j tg as cs" by (cases t) auto
  from Cons.prems t have c: "isElement c" "c \<in> set cs" "downPath c ns" "nodeId c \<noteq> Some i"
      "Some i \<notin> nodeId ` set ns" by auto
  from Cons.IH[OF c(3) c(5)] obtain ns' where
    ns': "downPath (removeNode i c) ns'" "map nodeHead ns' = map nodeHead ns" by blast
  have "isElement (removeNode i c)"
    using c(1) nodeHead_isElement[OF nodeHead_removeNode] by blast
  with t c ns' show ?case
    by (intro exI[of _ "removeNode i c # ns'"])
       (simp add: nodeHead_removeNode)
qed

lemma allIds_nodeId: "nodeId n = Some i \<Longrightarrow> i \<in> set (allIds n)"
  by (cases n) auto

lemma allIds_kid: "c \<in> set (kids t) \<Longrightarrow> set (allIds c) \<subseteq> set (allIds t)"
  by (cases t) auto

lemma allIds_downPath:
  "downPath t ns \<Longrightarrow> n \<in> set ns \<Longrightarrow> set (allIds n) \<subseteq> set (allIds t)"
proof (induction ns arbitrary: t)
  case Nil
  then show ?case by simp
next
  case (Cons c ns)
  then have c: "c \<in> set (kids t)" "downPath c ns" by auto
  show ?case
  proof (cases "n = c")
    case True
    with allIds_kid[OF c(1)] show ?thesis by simp
  next
    case False
    with Cons.prems have "n \<in> set ns" by simp
    from Cons.IH[OF c(2) this] allIds_kid[OF c(1)] show ?thesis by blast
  qed
qed

lemma distinct_kid: "distinct (allIds t) \<Longrightarrow> c \<in> set (kids t) \<Longrightarrow> distinct (allIds c)"
  by (cases t) (auto simp: distinct_concat_iff)

lemma distinct_downPath:
  "distinct (allIds t) \<Longrightarrow> downPath t ns \<Longrightarrow> n \<in> set ns \<Longrightarrow> distinct (allIds n)"
proof (induction ns arbitrary: t)
  case Nil
  then show ?case by simp
next
  case (Cons c ns)
  then have c: "c \<in> set (kids t)" "downPath c ns" by auto
  from distinct_kid[OF Cons.prems(1) c(1)] have d: "distinct (allIds c)" .
  show ?case
  proof (cases "n = c")
    case True
    with d show ?thesis by simp
  next
    case False
    with Cons.prems have "n \<in> set ns" by simp
    from Cons.IH[OF d c(2) this] show ?thesis .
  qed
qed

lemma kid_not_root:
  "distinct (allIds t) \<Longrightarrow> nodeId t = Some j \<Longrightarrow> c \<in> set (kids t) \<Longrightarrow> j \<notin> set (allIds c)"
  by (cases t) auto

lemma path_ids_distinct:
  "distinct (allIds t) \<Longrightarrow> isElement t \<Longrightarrow> downPath t ns \<Longrightarrow> distinct (map nodeId (t # ns))"
proof (induction ns arbitrary: t)
  case Nil
  then show ?case by simp
next
  case (Cons c ns)
  then have c: "isElement c" "c \<in> set (kids t)" "downPath c ns" by auto
  from distinct_kid[OF Cons.prems(1) c(2)] have d: "distinct (allIds c)" .
  from Cons.IH[OF d c(1) c(3)] have ih: "distinct (map nodeId (c # ns))" .
  from Cons.prems(2) obtain j where j: "nodeId t = Some j" by (cases t) auto
  have "Some j \<notin> nodeId ` set (c # ns)"
  proof
    assume "Some j \<in> nodeId ` set (c # ns)"
    then obtain m where m: "m \<in> set (c # ns)" "nodeId m = Some j" by (metis imageE)
    have "set (allIds m) \<subseteq> set (allIds c)"
    proof (cases "m = c")
      case True
      then show ?thesis by simp
    next
      case False
      with m have "m \<in> set ns" by simp
      from allIds_downPath[OF c(3) this] show ?thesis .
    qed
    with allIds_nodeId[OF m(2)] have "j \<in> set (allIds c)" by blast
    with kid_not_root[OF Cons.prems(1) j c(2)] show False by simp
  qed
  with ih j show ?case by simp
qed

lemma kids_disjoint:
  "distinct (concat (map allIds cs)) \<Longrightarrow> c \<in> set cs \<Longrightarrow> d \<in> set cs \<Longrightarrow>
   x \<in> set (allIds c) \<Longrightarrow> x \<in> set (allIds d) \<Longrightarrow> c = d"
proof (induction cs)
  case Nil
  then show ?case by simp
next
  case (Cons e es)
  then have dis: "distinct (allIds e)" "distinct (concat (map allIds es))"
      "set (allIds e) \<inter> set (concat (map allIds es)) = {}" by auto
  consider "c = e" "d = e" | "c = e" "d \<in> set es" | "c \<in> set es" "d = e"
    | "c \<in> set es" "d \<in> set es" using Cons.prems by auto
  then show ?case
  proof cases
    case 1
    then show ?thesis by simp
  next
    case 2
    with Cons.prems dis(3) show ?thesis by auto
  next
    case 3
    with Cons.prems dis(3) show ?thesis by auto
  next
    case 4
    with Cons.IH[OF dis(2)] Cons.prems show ?thesis by blast
  qed
qed

lemma last_in_allIds:
  "downPath c ns \<Longrightarrow> isElement c \<Longrightarrow> nodeId (last (c # ns)) = Some x \<Longrightarrow> x \<in> set (allIds c)"
proof (cases ns)
  case Nil
  then show "nodeId (last (c # ns)) = Some x \<Longrightarrow> ?thesis" by (simp add: allIds_nodeId)
next
  case (Cons a list)
  assume d: "downPath c ns" and x: "nodeId (last (c # ns)) = Some x"
  have "last (c # ns) \<in> set ns" using Cons by simp
  from allIds_downPath[OF d this] allIds_nodeId[OF x] show ?thesis by blast
qed

lemma same_id_same_path:
  "distinct (allIds t) \<Longrightarrow> isElement t \<Longrightarrow> downPath t a \<Longrightarrow> downPath t b \<Longrightarrow>
   nodeId (last (t # a)) = nodeId (last (t # b)) \<Longrightarrow> a = b"
proof (induction a arbitrary: t b)
  case Nil
  show ?case
  proof (cases b)
    case Nil
    then show ?thesis by simp
  next
    case (Cons d b1)
    from path_ids_distinct[OF Nil.prems(1,2,4)] have "distinct (map nodeId (t # b))" .
    then have "nodeId t \<notin> nodeId ` set b" by auto
    moreover have "last (t # b) \<in> set b" using Cons by simp
    ultimately show ?thesis using Nil.prems(5) by (metis image_eqI last.simps)
  qed
next
  case (Cons c a1)
  show ?case
  proof (cases b)
    case Nil
    from path_ids_distinct[OF Cons.prems(1,2,3)] have "distinct (map nodeId (t # c # a1))" .
    then have "nodeId t \<notin> nodeId ` set (c # a1)" by auto
    moreover have "last (t # c # a1) \<in> set (c # a1)" by simp
    ultimately show ?thesis using Cons.prems(5) Nil by (metis image_eqI last.simps)
  next
    case (Cons d b1)
    from Cons.prems(3) have c: "isElement c" "c \<in> set (kids t)" "downPath c a1" by auto
    from Cons.prems(4) Cons have d: "isElement d" "d \<in> set (kids t)" "downPath d b1" by auto
    from c(1) downPath_elements[OF Cons.prems(3)] obtain x where
      x: "nodeId (last (c # a1)) = Some x"
      by (metis isElement_nodeId last_in_set list.discI not_None_eq)
    with Cons.prems(5) Cons have x': "nodeId (last (d # b1)) = Some x" by simp
    from last_in_allIds[OF c(3) c(1) x] have xc: "x \<in> set (allIds c)" .
    from last_in_allIds[OF d(3) d(1) x'] have xd: "x \<in> set (allIds d)" .
    obtain j tg as cs where t: "t = Element j tg as cs" using Cons.prems(2) by (cases t) auto
    with Cons.prems(1) have "distinct (concat (map allIds cs))" by simp
    from kids_disjoint[OF this _ _ xc xd] c(2) d(2) t have cd: "c = d" by simp
    from distinct_kid[OF Cons.prems(1) c(2)] have dc: "distinct (allIds c)" .
    from Cons.IH[OF dc c(1) c(3), of b1] d(3) cd x x' have "a1 = b1" by simp
    with cd Cons show ?thesis by simp
  qed
qed

lemma tracks_insert: "tracks t hs \<Longrightarrow> tracks (insertNode p n r t) hs"
  unfolding tracks_def using ins_pres by metis

lemma fst_nodeHead: "fst (nodeHead n) = nodeId n"
  by (simp add: nodeHead_def)

lemma map_fst_nodeHead: "map fst (map nodeHead ns) = map nodeId ns"
  by (simp add: fst_nodeHead)

lemma tracks_remove: "tracks t hs \<Longrightarrow> Some i \<notin> fst ` set hs \<Longrightarrow> tracks (removeNode i t) hs"
proof -
  assume "tracks t hs" and i: "Some i \<notin> fst ` set hs"
  then obtain ns where ns: "downPath t ns" "map nodeHead ns = hs" unfolding tracks_def by blast
  have "map fst hs = map nodeId ns" using map_fst_nodeHead[of ns] ns(2) by simp
  then have "fst ` set hs = nodeId ` set ns" by (metis list.set_map)
  with i have "Some i \<notin> nodeId ` set ns" by simp
  from rem_pres[OF ns(1) this] ns(2) show ?thesis unfolding tracks_def by metis
qed

lemma distinct_last_butlast:
  "distinct (map f xs) \<Longrightarrow> xs \<noteq> [] \<Longrightarrow> f (last xs) \<notin> f ` set (butlast xs)"
proof -
  assume d: "distinct (map f xs)" and ne: "xs \<noteq> []"
  from ne have "butlast xs @ [last xs] = xs" by simp
  then have "map f (butlast xs) @ [f (last xs)] = map f xs"
    by (metis list.simps(8) list.simps(9) map_append)
  with d have "distinct (map f (butlast xs) @ [f (last xs)])" by simp
  then show ?thesis by auto
qed

lemma tracks_new_node:
  assumes "tracks t hs" "fst (last (nodeHead t # hs)) = Some p"
    "distinct (map fst (nodeHead t # hs))" "isElement n"
  shows "\<exists>ns'. downPath (insertNode p n None t) (ns' @ [n]) \<and> map nodeHead ns' = hs"
proof -
  from assms(1) obtain ns where ns: "downPath t ns" "map nodeHead ns = hs"
    unfolding tracks_def by blast
  have e: "nodeHead t # hs = map nodeHead (t # ns)" using ns(2) by simp
  have m: "map fst (nodeHead t # hs) = map nodeId (t # ns)"
    unfolding e by (rule map_fst_nodeHead)
  have "last (nodeHead t # hs) = nodeHead (last (t # ns))"
    unfolding e by (rule last_map) simp
  with assms(2) have l: "nodeId (last (t # ns)) = Some p" by (simp add: fst_nodeHead)
  have "distinct (map nodeId (t # ns))" using assms(3) unfolding m .
  from distinct_last_butlast[OF this] l
  have "Some p \<notin> nodeId ` set (butlast (t # ns))" by simp
  from ins_new[OF ns(1) l this, of n] assms(4) ns(2) show ?thesis by auto
qed

lemma tracks_new:
  assumes "tracks t hs" "fst (last (nodeHead t # hs)) = Some p"
    "distinct (map fst (nodeHead t # hs))" "isElement n"
  shows "tracks (insertNode p n None t) (hs @ [nodeHead n])"
proof -
  from tracks_new_node[OF assms] obtain ns' where
    "downPath (insertNode p n None t) (ns' @ [n])" "map nodeHead ns' = hs" by blast
  then show ?thesis unfolding tracks_def by (intro exI[of _ "ns' @ [n]"]) simp
qed

lemma tracks_prefix: "tracks t (hs @ hs') \<Longrightarrow> tracks t hs"
proof -
  assume "tracks t (hs @ hs')"
  then obtain ns where ns: "downPath t ns" "map nodeHead ns = hs @ hs'"
    unfolding tracks_def by blast
  then have "downPath t (take (length hs) ns)"
    by (metis append_take_drop_id downPath_append)
  moreover have "map nodeHead (take (length hs) ns) = hs"
    using ns(2) by (metis append_eq_conv_conj take_map)
  ultimately show ?thesis unfolding tracks_def by blast
qed

text \<open>What the matcher reads of a handle are the heads of its nodes.\<close>

lemma heads_getAttribute:
  "map nodeHead c = map nodeHead c' \<Longrightarrow> getAttribute c k = getAttribute c' k"
  by (cases c; cases c') (auto simp: nodeHead_def)

lemma heads_attrVal: "map nodeHead c = map nodeHead c' \<Longrightarrow> attrVal c k = attrVal c' k"
  using heads_getAttribute[of c c' k] by (simp add: attrVal_def)

lemma heads_elemTag: "map nodeHead c = map nodeHead c' \<Longrightarrow> elemTag c = elemTag c'"
  by (cases c; cases c') (auto simp: elemTag_def nodeHead_def)

lemma heads_closest:
  "map nodeHead c = map nodeHead c' \<Longrightarrow>
   map_option (map nodeHead) (closest ts c) = map_option (map nodeHead) (closest ts c')"
proof (induction c arbitrary: c')
  case Nil
  then show ?case by simp
next
  case (Cons n c)
  then obtain n' c1 where c': "c' = n' # c1" by (cases c') auto
  with Cons.prems have h: "nodeHead n = nodeHead n'" "map nodeHead c = map nodeHead c1" by auto
  from h(1) have t: "tagOf n = tagOf n'" by (simp add: nodeHead_def)
  show ?case
    unfolding c' using t h Cons.IH[OF h(2)] by (cases "tagOf n'") simp_all
qed

lemma heads_optAttr_closest:
  assumes "map nodeHead c = map nodeHead c'"
  shows "optAttr (closest ts c) k = optAttr (closest ts c') k"
proof -
  from heads_closest[OF assms, of ts]
  consider "closest ts c = None" "closest ts c' = None"
    | e e' where "closest ts c = Some e" "closest ts c' = Some e'" "map nodeHead e = map nodeHead e'"
    by (cases "closest ts c"; cases "closest ts c'") auto
  then show ?thesis
  proof cases
    case 1
    then show ?thesis by simp
  next
    case 2
    with heads_attrVal[OF 2(3), of k] show ?thesis by simp
  qed
qed

lemma heads_controlBlockReference:
  assumes "map nodeHead c = map nodeHead c'"
  shows "controlBlockReference (Some c) = controlBlockReference (Some c')"
  unfolding controlBlockReference_def Let_def option.case
  by (simp only: heads_optAttr_closest[OF assms] heads_attrVal[OF assms])

text \<open>The last element child has no next element sibling.\<close>

lemma afterNode_last:
  "distinct (map nodeId (filter isElement cs)) \<Longrightarrow> filter isElement cs \<noteq> [] \<Longrightarrow>
   nodeId (last (filter isElement cs)) = i \<Longrightarrow> filter isElement (afterNode i cs) = []"
proof (induction cs)
  case Nil
  then show ?case by simp
next
  case (Cons c cs)
  show ?case
  proof (cases "isElement c")
    case False
    with Cons show ?thesis by simp
  next
    case True
    show ?thesis
    proof (cases "filter isElement cs = []")
      case True
      with \<open>isElement c\<close> Cons.prems show ?thesis by simp
    next
      case False
      with \<open>isElement c\<close> Cons.prems have l: "nodeId (last (filter isElement cs)) = i" by simp
      have "last (filter isElement cs) \<in> set (filter isElement cs)"
        using False by (rule last_in_set)
      with Cons.prems(1) \<open>isElement c\<close> l have "nodeId c \<noteq> i" by (auto simp: image_iff)
      moreover from Cons.prems(1) \<open>isElement c\<close> have "distinct (map nodeId (filter isElement cs))"
        by simp
      ultimately show ?thesis using Cons.IH[OF _ False l] \<open>isElement c\<close> by simp
    qed
  qed
qed

lemma sibling_ids_distinct:
  "distinct (concat (map allIds cs)) \<Longrightarrow> distinct (map nodeId (filter isElement cs))"
proof (induction cs)
  case Nil
  then show ?case by simp
next
  case (Cons c cs)
  then have ih: "distinct (map nodeId (filter isElement cs))"
    and dis: "set (allIds c) \<inter> set (concat (map allIds cs)) = {}" by auto
  show ?case
  proof (cases c)
    case (TextNode s)
    with ih show ?thesis by simp
  next
    case (Element i tg as ks)
    have "Some i \<notin> nodeId ` set (filter isElement cs)"
    proof
      assume "Some i \<in> nodeId ` set (filter isElement cs)"
      then obtain d where d: "d \<in> set cs" "nodeId d = Some i" by auto
      from allIds_nodeId[OF d(2)] d(1) have "i \<in> set (concat (map allIds cs))" by auto
      with dis Element show False by auto
    qed
    with ih Element show ?thesis by simp
  qed
qed

lemma lastChild_no_next:
  assumes "distinct (allIds p)" "isLastElementChild (n # p # anc)"
  shows "nextElementSibling (n # p # anc) = None"
proof -
  obtain j tg as cs where p: "p = Element j tg as cs"
    using assms(2) by (cases p) (auto simp: isLastElementChild_def)
  with assms(1) have "distinct (concat (map allIds cs))" by simp
  from sibling_ids_distinct[OF this] have d: "distinct (map nodeId (filter isElement cs))" .
  from assms(2) p have ne: "filter isElement cs \<noteq> []"
    and l: "nodeId (last (filter isElement cs)) = nodeId n"
    by (auto simp: isLastElementChild_def split: list.splits)
  from afterNode_last[OF d ne l] p show ?thesis
    by (simp add: nextElementSibling_def)
qed

lemma nodeHead_handleEdit: "nodeHead (handleEdit e t) = nodeHead t"
  by (induction e t rule: handleEdit.induct) (simp_all add: nodeHead_insertNode nodeHead_removeNode)

lemma nodeHead_handleEdits: "nodeHead (handleEdits es t) = nodeHead t"
  unfolding handleEdits_def
  by (induction es arbitrary: t) (simp_all add: nodeHead_handleEdit)

lemma handleEdits_append: "handleEdits (a @ b) t = handleEdits b (handleEdits a t)"
  by (simp add: handleEdits_def)

lemma handleEdits_Cons: "handleEdits (e # es) t = handleEdits es (handleEdit e t)"
  by (simp add: handleEdits_def)

lemma handleEdits_Nil: "handleEdits [] t = t"
  by (simp add: handleEdits_def)

lemma tracks_handleEdit:
  "tracks t hs \<Longrightarrow> (\<forall>i. e = Remove (Some i) \<longrightarrow> Some i \<notin> fst ` set hs) \<Longrightarrow>
   tracks (handleEdit e t) hs"
  by (induction e t rule: handleEdit.induct) (simp_all add: tracks_insert tracks_remove)

lemma tracks_handleEdits:
  "tracks t hs \<Longrightarrow> (\<forall>i. Remove (Some i) \<in> set es \<longrightarrow> Some i \<notin> fst ` set hs) \<Longrightarrow>
   tracks (handleEdits es t) hs"
proof (induction es arbitrary: t)
  case Nil
  then show ?case by (simp add: handleEdits_Nil)
next
  case (Cons e es)
  from Cons.prems have "tracks (handleEdit e t) hs"
    by (intro tracks_handleEdit) auto
  from Cons.IH[OF this] Cons.prems(2) show ?case by (simp add: handleEdits_Cons)
qed

lemma tracks_nest:
  "tracks t hs \<Longrightarrow> distinct (map fst (nodeHead t # hs) @ map nodeId ms) \<Longrightarrow>
   \<forall>m \<in> set ms. isElement m \<Longrightarrow> isElement t \<Longrightarrow>
   tracks (handleEdits (nestEdits (fst (last (nodeHead t # hs))) ms) t) (hs @ map nodeHead ms)"
proof (induction ms arbitrary: t hs)
  case Nil
  then show ?case by (simp add: handleEdits_Nil)
next
  case (Cons m ms)
  from Cons.prems(4) obtain p where p: "fst (last (nodeHead t # hs)) = Some p"
  proof -
    from Cons.prems(1) obtain ns where ns: "downPath t ns" "map nodeHead ns = hs"
      unfolding tracks_def by blast
    have e: "nodeHead t # hs = map nodeHead (t # ns)" using ns(2) by simp
    have "last (nodeHead t # hs) = nodeHead (last (t # ns))"
      unfolding e by (rule last_map) simp
    moreover have "isElement (last (t # ns))"
      using Cons.prems(4) downPath_elements[OF ns(1)] by (cases ns) auto
    ultimately show ?thesis using that by (auto simp: fst_nodeHead isElement_nodeId)
  qed
  have d0: "distinct (map fst (nodeHead t # hs))" using Cons.prems(2) by simp
  have em: "isElement m" using Cons.prems(3) by simp
  let ?t1 = "insertNode p m None t"
  from tracks_new[OF Cons.prems(1) p d0 em] have t1: "tracks ?t1 (hs @ [nodeHead m])" .
  have h1: "nodeHead ?t1 = nodeHead t" by (rule nodeHead_insertNode)
  have d1: "distinct (map fst (nodeHead ?t1 # hs @ [nodeHead m]) @ map nodeId ms)"
    using Cons.prems(2) unfolding h1 by (simp add: fst_nodeHead)
  have l1: "fst (last (nodeHead ?t1 # hs @ [nodeHead m])) = nodeId m"
    by (simp add: fst_nodeHead)
  have e1: "isElement ?t1" using Cons.prems(4) nodeHead_isElement[OF h1] by simp
  from Cons.IH[OF t1 d1 _ e1] Cons.prems(3) l1
  have "tracks (handleEdits (nestEdits (nodeId m) ms) ?t1) ((hs @ [nodeHead m]) @ map nodeHead ms)"
    by simp
  then show ?case using p by (simp add: handleEdits_Cons)
qed

lemma apply_nested:
  assumes t: "tracks t hs" "isElement t"
    and d: "distinct (map fst (nodeHead t # hs) @ map nodeId ms)"
    and ms: "\<forall>m \<in> set ms. isElement m"
    and rm: "\<forall>i. Remove (Some i) \<in> set rs \<longrightarrow> Some i \<notin> fst ` set (hs @ map nodeHead ms)"
    and v: "isElement val"
    and pk: "pk = fst (last (nodeHead t # hs @ map nodeHead ms))"
  shows "\<exists>ns'. downPath (handleEdits (nestEdits (fst (last (nodeHead t # hs))) ms @ rs @
                   [Insert pk val None]) t) (ns' @ [val]) \<and>
               map nodeHead ns' = hs @ map nodeHead ms"
proof -
  let ?ta = "handleEdits (nestEdits (fst (last (nodeHead t # hs))) ms) t"
  let ?tb = "handleEdits rs ?ta"
  from tracks_nest[OF t(1) d ms t(2)] have a: "tracks ?ta (hs @ map nodeHead ms)" .
  from tracks_handleEdits[OF a rm] have b: "tracks ?tb (hs @ map nodeHead ms)" .
  have hb: "nodeHead ?tb = nodeHead t" by (simp add: nodeHead_handleEdits)
  have eb: "isElement ?tb" using t(2) nodeHead_isElement[OF hb] by simp
  from b obtain ns where ns: "downPath ?tb ns" "map nodeHead ns = hs @ map nodeHead ms"
    unfolding tracks_def by blast
  have e: "nodeHead ?tb # hs @ map nodeHead ms = map nodeHead (?tb # ns)" using ns(2) by simp
  have "last (nodeHead ?tb # hs @ map nodeHead ms) = nodeHead (last (?tb # ns))"
    unfolding e by (rule last_map) simp
  moreover have "isElement (last (?tb # ns))"
    using eb downPath_elements[OF ns(1)] by (cases ns) auto
  ultimately obtain p where p: "fst (last (nodeHead ?tb # hs @ map nodeHead ms)) = Some p"
    by (auto simp: fst_nodeHead isElement_nodeId)
  have dd: "distinct (map fst (nodeHead ?tb # hs @ map nodeHead ms))"
    using d unfolding hb by (simp add: map_fst_nodeHead comp_def fst_nodeHead)
  from tracks_new_node[OF b p dd v] obtain ns' where
    "downPath (insertNode p val None ?tb) (ns' @ [val])" "map nodeHead ns' = hs @ map nodeHead ms"
    by blast
  moreover have "pk = Some p" using pk p unfolding hb by simp
  ultimately show ?thesis
    by (intro exI[of _ ns']) (simp add: handleEdits_append handleEdits_Cons handleEdits_Nil)
qed

subsection \<open>The remover on a supervision structure\<close>

text \<open>A value below \<open>LN > DOI > DAI\<close> that carries the reference of a control block
  is found by the remover, whatever else the document holds.\<close>

lemma chain_path:
  "isElement doc \<Longrightarrow> (c \<in> set (subtree [] doc)) = (\<exists>ns. downPath doc ns \<and> c = rev ns @ [doc])"
  by (simp add: subtree_iff)

lemma chain_hd: "hd (rev ns @ [doc]) = last (doc # ns)"
  by (cases ns rule: rev_cases) simp_all

lemma desc_path:
  assumes "downPath doc ns" "isElement doc"
  shows "(x \<in> set (descendants (rev ns @ [doc]))) =
         (\<exists>q. q \<noteq> [] \<and> downPath doc (ns @ q) \<and> x = rev (ns @ q) @ [doc])"
proof -
  obtain anc where c: "rev ns @ [doc] = last (doc # ns) # anc"
    by (cases ns rule: rev_cases) simp_all
  have e: "isElement (last (doc # ns))"
    using assms downPath_elements[OF assms(1)] by (cases ns rule: rev_cases) auto
  have "(x \<in> set (descendants (rev ns @ [doc]))) =
        (\<exists>q. q \<noteq> [] \<and> downPath (last (doc # ns)) q \<and> x = rev q @ last (doc # ns) # anc)"
    unfolding c by (rule descendants_iff[OF e])
  also have "\<dots> = (\<exists>q. q \<noteq> [] \<and> downPath doc (ns @ q) \<and> x = rev (ns @ q) @ [doc])"
    using assms(1) c by (simp add: downPath_append)
  finally show ?thesis .
qed

lemma nodeHead_parts:
  "nodeHead n = h \<Longrightarrow> nodeId n = fst h \<and> tagOf n = fst (snd h) \<and> attrsOf n = snd (snd h)"
  by (auto simp: nodeHead_def)

lemma textContent_textChildren: "concat (map textContent (textChildren (Some r))) = r"
  by (simp add: textChildren_def)

lemma map_split:
  assumes "map f xs = a @ b"
  shows "\<exists>u v. xs = u @ v \<and> map f u = a \<and> map f v = b"
proof -
  have 1: "map f (take (length a) xs) = a"
    using assms by (metis append_eq_conv_conj take_map)
  have 2: "map f (drop (length a) xs) = b"
    using assms by (metis append_eq_conv_conj drop_map)
  show ?thesis
    using 1 2 by (intro exI[of _ "take (length a) xs"] exI[of _ "drop (length a) xs"]) simp
qed

lemma final_chain:
  assumes dp: "downPath doc' (ns' @ [val])" and e: "isElement doc'"
    and val: "val = Element vid ''Val'' [] (textChildren (Some r))"
    and hs: "map nodeHead ns' = hI @ M @ [hP, hDOI, hDAI]"
    and P: "fst (snd hP) = Some ''LN'' \<or> fst (snd hP) = Some ''LN0''"
           "map_of (snd (snd hP)) ''lnClass'' = Some (supervisionTypeOf tag)"
    and DOI: "fst (snd hDOI) = Some ''DOI''"
           "map_of (snd (snd hDOI)) ''name'' = Some (supervisionNameOf (supervisionTypeOf tag))"
    and DAI: "fst (snd hDAI) = Some ''DAI''" "map_of (snd (snd hDAI)) ''name'' = Some ''setSrcRef''"
  shows "\<exists>ied'. ied' \<in> set (subtree [] doc') \<and> map nodeHead ied' = rev hI @ [nodeHead doc'] \<and>
           (\<exists>V \<in> set (getSupervisionCbRefs ied' tag). elemText V = r)"
proof -
  from map_split[OF hs] obtain nI r1 where r1: "ns' = nI @ r1"
      "map nodeHead nI = hI" "map nodeHead r1 = M @ [hP, hDOI, hDAI]"
    by (elim exE conjE)
  from map_split[OF r1(3)] obtain nM r2 where r2: "r1 = nM @ r2"
      "map nodeHead nM = M" "map nodeHead r2 = [hP, hDOI, hDAI]"
    by (elim exE conjE)
  from r2(3) obtain nP nDOI nDAI where r3: "r2 = [nP, nDOI, nDAI]" "nodeHead nP = hP"
      "nodeHead nDOI = hDOI" "nodeHead nDAI = hDAI"
    by (auto simp: map_eq_Cons_conv)
  have ns': "ns' = nI @ nM @ [nP, nDOI, nDAI]" using r1(1) r2(1) r3(1) by simp
  note h = r1(2) r2(2) r3(2) r3(3) r3(4)
  let ?ied = "rev nI @ [doc']"
  let ?V = "rev (ns' @ [val]) @ [doc']"
  from dp ns' have dI: "downPath doc' nI" by (simp add: downPath_append)
  have i1: "?ied \<in> set (subtree [] doc')" using chain_path[OF e] dI by blast
  have i2: "map nodeHead ?ied = rev hI @ [nodeHead doc']" unfolding h(1)[symmetric] by (simp add: rev_map)
  have "\<exists>q. q \<noteq> [] \<and> downPath doc' (nI @ q) \<and> ?V = rev (nI @ q) @ [doc']"
    using dp ns' by (intro exI[of _ "nM @ [nP, nDOI, nDAI, val]"]) simp
  then have vd: "?V \<in> set (descendants ?ied)" using desc_path[OF dI e] by blast
  have V: "?V = val # nDAI # nDOI # nP # rev (nI @ nM) @ [doc']" using ns' by simp
  from nodeHead_parts[OF h(3)] P have p: "tagOf nP = Some ''LN'' \<or> tagOf nP = Some ''LN0''"
      "map_of (attrsOf nP) ''lnClass'' = Some (supervisionTypeOf tag)" by auto
  from nodeHead_parts[OF h(4)] DOI have d: "tagOf nDOI = Some ''DOI''"
      "map_of (attrsOf nDOI) ''name'' = Some (supervisionNameOf (supervisionTypeOf tag))" by auto
  from nodeHead_parts[OF h(5)] DAI have a: "tagOf nDAI = Some ''DAI''"
      "map_of (attrsOf nDAI) ''name'' = Some ''setSrcRef''" by auto
  have m: "matchesComplex sc (selCbRef ''LN'' (supervisionTypeOf tag)
               (supervisionNameOf (supervisionTypeOf tag))) ?V \<or>
           matchesComplex sc (selCbRef ''LN0'' (supervisionTypeOf tag)
               (supervisionNameOf (supervisionTypeOf tag))) ?V" for sc
    unfolding V using p d a val
    by (auto simp: matchesComplex_def selCbRef_def)
  have "?V \<in> set (getSupervisionCbRefs ?ied tag)"
    unfolding getSupervisionCbRefs_def querySelectorAll_def Let_def
    using vd m[of "elemId ?ied"] by (simp del: rev_append rev.simps)
  moreover have "elemText ?V = r"
    unfolding V using val by (simp add: elemText_def textContent_textChildren)
  ultimately show ?thesis using i1 i2 by blast
qed

text \<open>A value element without element children is on no path to another element.\<close>

lemma leaf_not_on_path:
  assumes wf: "distinct (allIds doc)" "isElement doc"
    and v: "downPath doc nv" "nv \<noteq> []" "nodeId (last nv) = Some i"
           "filter isElement (kids (last nv)) = []" "tagOf (last nv) = Some ''Val''"
    and ns: "downPath doc ns" "ns \<noteq> [] \<longrightarrow> tagOf (last ns) \<noteq> Some ''Val''"
  shows "Some i \<notin> nodeId ` set ns"
proof
  assume "Some i \<in> nodeId ` set ns"
  then obtain m where m: "m \<in> set ns" "nodeId m = Some i" by (metis imageE)
  then obtain a b where ab: "ns = a @ m # b" by (meson split_list)
  have da: "downPath doc (a @ [m])" using ns(1) ab
    by (metis append.assoc append_Cons append_Nil downPath_append)
  have "nodeId (last (doc # a @ [m])) = nodeId (last (doc # nv))" using m(2) v(2,3) by simp
  from same_id_same_path[OF wf da v(1) this] have eq: "a @ [m] = nv" .
  then have mv: "m = last nv" by (metis last_snoc)
  show False
  proof (cases b)
    case Nil
    with ab have "last ns = m" by simp
    with ns(2) ab mv v(5) show False by simp
  next
    case (Cons c b')
    have "downPath m (c # b')"
      using ns(1) ab Cons by (metis downPath_append last_snoc last_ConsR snoc_eq_iff_butlast
          append.assoc append_Cons append_Nil)
    then have "isElement c" "c \<in> set (kids m)" by auto
    then have "filter isElement (kids m) \<noteq> []" by (metis filter_empty_conv)
    with mv v(4) show False by simp
  qed
qed

lemma remove_found:
  assumes "find (\<lambda>val. Some (elemText val) = controlBlockReference (Some cb))
                 (getSupervisionCbRefs ied (elemTag cb)) = Some v" "elemTag ied = ''IED''"
  shows "removeSubscriptionSupervision (Some cb) (Some ied) \<noteq> []"
proof -
  from assms(1) have vin: "v \<in> set (getSupervisionCbRefs ied (elemTag cb))"
    by (auto simp: find_Some_iff)
  from getSupervisionCbRefs_shape[OF vin] obtain val dai doi ln rest where
    s: "v = val # dai # doi # ln # rest" "tagOf val = Some ''Val''" "tagOf dai = Some ''DAI''"
       "tagOf doi = Some ''DOI''" "tagOf ln = Some ''LN'' \<or> tagOf ln = Some ''LN0''"
    by blast
  have r: "rest \<noteq> []"
    using getSupervisionCbRefs_parent[OF vin s(1) s(3) s(4) s(5) assms(2)] .
  have p: "parentElement (ln # rest) \<noteq> None" using r by (cases rest) auto
  show ?thesis
    using assms(1) p closest_ln[OF s(2) s(3) s(4) s(5), of rest]
    by (auto simp add: removeSubscriptionSupervision_def s(1) simp del: closest.simps)
qed

lemma chain_heads: "map nodeHead (rev ns @ [doc]) = rev (map nodeHead ns) @ [nodeHead doc]"
  by (simp add: rev_map)

lemma last_heads:
  "fst (last (nodeHead t # map nodeHead ns)) = nodeId (last (t # ns))"
proof -
  have "last (map nodeHead (t # ns)) = nodeHead (last (t # ns))" by (rule last_map) simp
  then show ?thesis by (simp add: fst_nodeHead)
qed

lemma path_ids_bound:
  assumes "downPath doc ns" "isElement doc" "\<forall>i \<in> set (allIds doc). i < fresh"
    "x \<in> set (doc # ns)" "nodeId x = Some j"
  shows "j < fresh"
proof -
  have "set (allIds x) \<subseteq> set (allIds doc)"
    using assms(1,4) allIds_downPath by (cases "x = doc") auto
  with allIds_nodeId[OF assms(5)] assms(3) show ?thesis by blast
qed

lemma nestEdits_no_remove: "Remove x \<notin> set (nestEdits p ms)"
  by (induction ms arbitrary: p) auto

lemma instantiate_core:
  assumes wf: "distinct (allIds doc)" "isElement doc" "\<forall>i \<in> set (allIds doc). i < fresh"
    and ied: "downPath doc nsI" "elemTag (rev nsI @ [doc]) = ''IED''"
    and cb: "downPath doc ncb" "tagOf (last (doc # ncb)) \<noteq> Some ''Val''"
    and ref: "controlBlockReference (Some (rev ncb @ [doc])) = Some r"
    and base: "downPath doc (nsI @ q)" "rs \<noteq> [] \<longrightarrow> tagOf (last (doc # nsI @ q)) \<noteq> Some ''Val''"
    and ms: "\<forall>m \<in> set ms. isElement m \<and> (\<exists>j. nodeId m = Some j \<and> fresh \<le> j)"
            "distinct (map nodeId ms)"
    and shape: "map nodeHead q @ map nodeHead ms = M @ [hP, hDOI, hDAI]"
    and P: "fst (snd hP) = Some ''LN'' \<or> fst (snd hP) = Some ''LN0''"
           "map_of (snd (snd hP)) ''lnClass'' = Some (supervisionTypeOf (elemTag (rev ncb @ [doc])))"
    and DOI: "fst (snd hDOI) = Some ''DOI''"
           "map_of (snd (snd hDOI)) ''name'' =
              Some (supervisionNameOf (supervisionTypeOf (elemTag (rev ncb @ [doc]))))"
    and DAI: "fst (snd hDAI) = Some ''DAI''" "map_of (snd (snd hDAI)) ''name'' = Some ''setSrcRef''"
    and rs: "\<forall>i. Remove (Some i) \<in> set rs \<longrightarrow>
               (\<exists>nv. downPath doc nv \<and> nv \<noteq> [] \<and> nodeId (last nv) = Some i \<and>
                     filter isElement (kids (last nv)) = [] \<and> tagOf (last nv) = Some ''Val'')"
    and batch: "batch = nestEdits (nodeId (last (doc # nsI @ q))) ms @ rs @
                  [Insert pk (Element vid ''Val'' [] (textChildren (Some r))) None]"
    and pk: "pk = nodeId (last (doc # (nsI @ q) @ ms))"
  shows "\<exists>ied' cb'. ied' \<in> set (subtree [] (handleEdits batch doc)) \<and>
           cb' \<in> set (subtree [] (handleEdits batch doc)) \<and>
           map nodeHead ied' = map nodeHead (rev nsI @ [doc]) \<and>
           map nodeHead cb' = map nodeHead (rev ncb @ [doc]) \<and>
           removeSubscriptionSupervision (Some cb') (Some ied') \<noteq> []"
proof -
  let ?doc' = "handleEdits batch doc"
  let ?hs = "map nodeHead (nsI @ q)"
  let ?val = "Element vid ''Val'' [] (textChildren (Some r))"
  let ?tag = "elemTag (rev ncb @ [doc])"
  have hd': "nodeHead ?doc' = nodeHead doc" by (rule nodeHead_handleEdits)
  have ed': "isElement ?doc'" using wf(2) nodeHead_isElement[OF hd'] by simp
  \<comment> \<open>removed nodes are on neither path\<close>
  have off: "Some i \<notin> nodeId ` set ns"
    if "Remove (Some i) \<in> set rs" "downPath doc ns" "ns \<noteq> [] \<longrightarrow> tagOf (last ns) \<noteq> Some ''Val''"
    for i ns
  proof -
    from rs that(1) obtain nv where nv: "downPath doc nv" "nv \<noteq> []" "nodeId (last nv) = Some i"
        "filter isElement (kids (last nv)) = []" "tagOf (last nv) = Some ''Val''" by blast
    from leaf_not_on_path[OF wf(1,2) nv that(2) that(3)] show ?thesis .
  qed
  have lowid: "i < fresh" if "Remove (Some i) \<in> set rs" for i
  proof -
    from rs that obtain nv where nv: "downPath doc nv" "nv \<noteq> []" "nodeId (last nv) = Some i"
      by blast
    have "last nv \<in> set (doc # nv)" using nv(2) by simp
    from path_ids_bound[OF nv(1) wf(2,3) this nv(3)] show ?thesis .
  qed
  \<comment> \<open>the control block\<close>
  have tcb: "tracks doc (map nodeHead ncb)" unfolding tracks_def using cb(1) by blast
  have "\<forall>i. Remove (Some i) \<in> set batch \<longrightarrow> Some i \<notin> fst ` set (map nodeHead ncb)"
  proof (intro allI impI)
    fix i assume "Remove (Some i) \<in> set batch"
    then have r: "Remove (Some i) \<in> set rs"
      unfolding batch using nestEdits_no_remove by auto
    have "ncb \<noteq> [] \<longrightarrow> tagOf (last ncb) \<noteq> Some ''Val''" using cb(2) by auto
    from off[OF r cb(1) this] show "Some i \<notin> fst ` set (map nodeHead ncb)"
      using map_fst_nodeHead[of ncb] by (metis list.set_map)
  qed
  from tracks_handleEdits[OF tcb this] obtain ncb' where
    ncb': "downPath ?doc' ncb'" "map nodeHead ncb' = map nodeHead ncb"
    unfolding tracks_def by blast
  let ?cb' = "rev ncb' @ [?doc']"
  have c1: "?cb' \<in> set (subtree [] ?doc')" using chain_path[OF ed'] ncb'(1) by blast
  have c2: "map nodeHead ?cb' = map nodeHead (rev ncb @ [doc])"
    unfolding chain_heads ncb'(2) hd' ..
  have c3: "controlBlockReference (Some ?cb') = Some r"
    using heads_controlBlockReference[OF c2] ref by simp
  have c4: "elemTag ?cb' = ?tag" by (rule heads_elemTag[OF c2])
  \<comment> \<open>the new value\<close>
  have tb: "tracks doc ?hs" unfolding tracks_def using base(1) by blast
  have pd: "distinct (map nodeId (doc # nsI @ q))" by (rule path_ids_distinct[OF wf(1,2) base(1)])
  have d: "distinct (map fst (nodeHead doc # ?hs) @ map nodeId ms)"
  proof -
    have e: "map fst (nodeHead doc # ?hs) = map nodeId (doc # nsI @ q)"
      by (simp add: fst_nodeHead comp_def)
    have disj: "set (map nodeId (doc # nsI @ q)) \<inter> set (map nodeId ms) = {}"
    proof -
      have "nodeId x \<noteq> nodeId m" if "x \<in> set (doc # nsI @ q)" "m \<in> set ms" for x m
      proof
        assume e: "nodeId x = nodeId m"
        from ms(1) that(2) obtain j where j: "nodeId m = Some j" "fresh \<le> j" by blast
        from path_ids_bound[OF base(1) wf(2,3) that(1)] e j show False by simp
      qed
      then show ?thesis by (simp only: set_map) blast
    qed
    have "distinct (map nodeId (doc # nsI @ q) @ map nodeId ms)"
      using pd ms(2) disj by (simp only: distinct_append)
    then show ?thesis unfolding e .
  qed
  have em: "\<forall>m \<in> set ms. isElement m" using ms(1) by blast
  have rm: "\<forall>i. Remove (Some i) \<in> set rs \<longrightarrow> Some i \<notin> fst ` set (?hs @ map nodeHead ms)"
  proof (intro allI impI)
    fix i assume r: "Remove (Some i) \<in> set rs"
    have "nsI @ q \<noteq> [] \<longrightarrow> tagOf (last (nsI @ q)) \<noteq> Some ''Val''"
      using base(2) r by (auto split: if_splits)
    from off[OF r base(1) this] have 1: "Some i \<notin> nodeId ` set (nsI @ q)" .
    have 2: "Some i \<notin> nodeId ` set ms" using ms(1) lowid[OF r] by force
    have "fst ` set (?hs @ map nodeHead ms) = nodeId ` set ((nsI @ q) @ ms)"
      using map_fst_nodeHead[of "(nsI @ q) @ ms"] by (metis list.set_map map_append)
    with 1 2 show "Some i \<notin> fst ` set (?hs @ map nodeHead ms)" by auto
  qed
  have pk': "pk = fst (last (nodeHead doc # ?hs @ map nodeHead ms))"
    using last_heads[of doc "(nsI @ q) @ ms"] pk by simp
  have b': "batch = nestEdits (fst (last (nodeHead doc # ?hs))) ms @ rs @ [Insert pk ?val None]"
    using batch last_heads[of doc "nsI @ q"] by simp
  from apply_nested[OF tb wf(2) d em rm _ pk', of ?val] obtain ns' where
    ns': "downPath ?doc' (ns' @ [?val])" "map nodeHead ns' = ?hs @ map nodeHead ms"
    unfolding b'[symmetric] by auto
  have hs': "map nodeHead ns' = map nodeHead nsI @ M @ [hP, hDOI, hDAI]"
    using ns'(2) shape by simp
  from final_chain[OF ns'(1) ed' refl hs' P DOI DAI] obtain ied' V where
    i: "ied' \<in> set (subtree [] ?doc')" "map nodeHead ied' = rev (map nodeHead nsI) @ [nodeHead ?doc']"
       "V \<in> set (getSupervisionCbRefs ied' ?tag)" "elemText V = r"
    by blast
  have i2: "map nodeHead ied' = map nodeHead (rev nsI @ [doc])"
    unfolding chain_heads i(2) hd' ..
  have it: "elemTag ied' = ''IED''" using heads_elemTag[OF i2] ied(2) by simp
  have "find (\<lambda>val. Some (elemText val) = controlBlockReference (Some ?cb'))
          (getSupervisionCbRefs ied' (elemTag ?cb')) \<noteq> None"
    unfolding c3 c4 using i(3,4) by (auto simp: find_None_iff)
  then obtain v where "find (\<lambda>val. Some (elemText val) = controlBlockReference (Some ?cb'))
          (getSupervisionCbRefs ied' (elemTag ?cb')) = Some v" by blast
  from remove_found[OF this it] have "removeSubscriptionSupervision (Some ?cb') (Some ied') \<noteq> []" .
  with i(1) c1 i2 c2 show ?thesis by blast
qed

subsection \<open>The batch of the allocator\<close>

text \<open>The nodes the allocator reads in the logical node it chose, and the shape of the
  batch in each of its cases.\<close>

lemma querySelectorAll_mem:
  "d \<in> set (querySelectorAll sels e) =
   (d \<in> set (descendants e) \<and> list_ex (\<lambda>s. matchesComplex (elemId e) s d) sels)"
  by (simp add: querySelectorAll_def)

lemma querySelector_Some:
  "querySelector sels e = Some d \<Longrightarrow>
   d \<in> set (descendants e) \<and> list_ex (\<lambda>s. matchesComplex (elemId e) s d) sels"
proof -
  assume "querySelector sels e = Some d"
  then have "d \<in> set (querySelectorAll sels e)"
    by (auto simp: querySelector_def split: list.splits)
  then show ?thesis by (simp add: querySelectorAll_mem)
qed

lemma selDoi_matches:
  "matchesComplex sc (selDoi sn) d = (elemTag d = ''DOI'' \<and> getAttribute d ''name'' = Some sn)"
  by (cases d; cases "hd d") (auto simp: matchesComplex_def selDoi_def elemTag_def)

lemma selDai_matches:
  assumes "matchesComplex sc (selDai sn) d"
  shows "\<exists>daiN doiN rest. d = daiN # doiN # rest \<and> tagOf daiN = Some ''DAI'' \<and>
           map_of (attrsOf daiN) ''name'' = Some ''setSrcRef'' \<and> tagOf doiN = Some ''DOI'' \<and>
           map_of (attrsOf doiN) ''name'' = Some sn"
proof -
  from assms obtain daiN r1 where d: "d = daiN # r1" "tagOf daiN = Some ''DAI''"
      "map_of (attrsOf daiN) ''name'' = Some ''setSrcRef''"
    and m: "matchesRest sc [(Child, Sel ''DOI'' [(''name'', sn)])] r1"
    by (cases d) (auto simp: matchesComplex_def selDai_def)
  from m obtain doiN rest where "r1 = doiN # rest" "tagOf doiN = Some ''DOI''"
      "map_of (attrsOf doiN) ''name'' = Some sn"
    by (cases r1) auto
  with d show ?thesis by blast
qed

lemma anyVal_matches: "matchesComplex sc anyVal d = (elemTag d = ''Val'')"
  by (cases d; cases "hd d") (auto simp: matchesComplex_def anyVal_def elemTag_def)

lemma elemTag_chain: "elemTag (rev ns @ [doc]) = t \<Longrightarrow> t \<noteq> [] \<Longrightarrow> tagOf (last (doc # ns)) = Some t"
proof -
  assume a: "elemTag (rev ns @ [doc]) = t" "t \<noteq> []"
  obtain anc where c: "rev ns @ [doc] = last (doc # ns) # anc"
    by (cases ns rule: rev_cases) simp_all
  from a show ?thesis unfolding c by (auto simp: elemTag_def split: option.splits)
qed

lemma getAttribute_chain:
  "getAttribute (rev ns @ [doc]) k = map_of (attrsOf (last (doc # ns))) k"
proof -
  obtain anc where c: "rev ns @ [doc] = last (doc # ns) # anc"
    by (cases ns rule: rev_cases) simp_all
  show ?thesis unfolding c by simp
qed

lemma elemId_chain: "elemId (rev ns @ [doc]) = nodeId (last (doc # ns))"
proof -
  obtain anc where c: "rev ns @ [doc] = last (doc # ns) # anc"
    by (cases ns rule: rev_cases) simp_all
  show ?thesis unfolding c by (simp add: elemId_def)
qed

lemma parent_chain: "parentElement (rev (ns @ [n]) @ [doc]) = Some (rev ns @ [doc])"
  by (cases ns rule: rev_cases) simp_all

lemma parent_root: "parentElement [doc] = None"
  by simp

lemma desc_desc:
  assumes "downPath doc ns" "isElement doc" "qa \<noteq> []" "downPath doc (ns @ qa)"
    "x \<in> set (descendants (rev (ns @ qa) @ [doc]))"
  shows "\<exists>qd. qd \<noteq> [] \<and> downPath doc (ns @ qa @ qd) \<and> x = rev (ns @ qa @ qd) @ [doc]"
  using desc_path[OF assms(4,2), of x] assms(5) by auto

text \<open>A value without element children.\<close>

lemma no_descendants_kids:
  assumes "descendants (rev ns @ [doc]) = []" "downPath doc ns" "isElement doc"
  shows "filter isElement (kids (last (doc # ns))) = []"
proof (rule ccontr)
  assume "filter isElement (kids (last (doc # ns))) \<noteq> []"
  then obtain c where c: "c \<in> set (kids (last (doc # ns)))" "isElement c"
    by (metis filter_False)
  then have "downPath doc (ns @ [c])" using assms(2) by (simp add: downPath_append)
  with desc_path[OF assms(2,3), of "rev (ns @ [c]) @ [doc]"]
  have "rev (ns @ [c]) @ [doc] \<in> set (descendants (rev ns @ [doc]))" by blast
  with assms(1) show False by simp
qed

lemma last_two: "2 \<le> length xs \<Longrightarrow> \<exists>ys x y. xs = ys @ [x, y]"
proof (cases xs rule: rev_cases)
  case Nil
  then show "2 \<le> length xs \<Longrightarrow> ?thesis" by simp
next
  case (snoc ys y)
  assume "2 \<le> length xs"
  with snoc obtain zs x where "ys = zs @ [x]" by (cases ys rule: rev_cases) auto
  with snoc show ?thesis by simp
qed

lemma last_path: "q \<noteq> [] \<Longrightarrow> last (doc # ns @ q) = last q"
  by simp

lemma new_heads:
  "nodeHead (Element i t as cs) = (Some i, Some t, as)"
  by (simp add: nodeHead_def)

lemma findOrCreate_cases:
  assumes "findOrCreateAvailableLNInst fresh mA cb ied st = Some aln"
  shows "aln \<in> set (querySelectorAll [selLn st] ied) \<or>
         (\<exists>lnType inst. aln = [Element fresh ''LN''
                            [(''lnClass'', st), (''lnType'', lnType), (''inst'', inst)]
                            [Element (fresh + 1) ''Private'' [(''type'', ''OpenSCD.create'')] []]])"
proof (cases "find (isAvailableLn st) (querySelectorAll [selLn st] ied)")
  case None
  with assms have "createNewSupervisionLnInst fresh mA cb ied st = Some aln"
    by (simp add: findOrCreateAvailableLNInst_def)
  then show ?thesis
    by (auto simp: createNewSupervisionLnInst_def split: option.splits if_splits list.splits)
next
  case (Some a)
  with assms have "a = aln" by (simp add: findOrCreateAvailableLNInst_def)
  with Some show ?thesis by (auto simp: find_Some_iff)
qed

lemma new_ln_queries:
  "querySelector [selDoi sn]
     [Element fresh ''LN'' [(''lnClass'', st), (''lnType'', lnType), (''inst'', inst)]
        [Element (fresh + 1) ''Private'' [(''type'', ''OpenSCD.create'')] []]] = None"
  "querySelector [selDai sn]
     [Element fresh ''LN'' [(''lnClass'', st), (''lnType'', lnType), (''inst'', inst)]
        [Element (fresh + 1) ''Private'' [(''type'', ''OpenSCD.create'')] []]] = None"
  "querySelector [anyVal]
     [Element fresh ''LN'' [(''lnClass'', st), (''lnType'', lnType), (''inst'', inst)]
        [Element (fresh + 1) ''Private'' [(''type'', ''OpenSCD.create'')] []]] = None"
  "parentElement
     [Element fresh ''LN'' [(''lnClass'', st), (''lnType'', lnType), (''inst'', inst)]
        [Element (fresh + 1) ''Private'' [(''type'', ''OpenSCD.create'')] []]] = None"
  "elemId
     [Element fresh ''LN'' [(''lnClass'', st), (''lnType'', lnType), (''inst'', inst)]
        [Element (fresh + 1) ''Private'' [(''type'', ''OpenSCD.create'')] []]] = Some fresh"
  by (simp_all add: querySelector_def querySelectorAll_def descendants_def matchesComplex_def
      selDoi_def selDai_def anyVal_def elemId_def)

lemma supervision_round_trip:
  assumes wf: "distinct (allIds doc)" "\<forall>i \<in> set (allIds doc). i < fresh"
    and ied: "ied \<in> set (subtree [] doc)" "elemTag ied = ''IED''"
    and cb: "cb \<in> set (subtree [] doc)"
            "elemTag cb = ''GSEControl'' \<or> elemTag cb = ''SampledValueControl''"
    and ref: "controlBlockReference (Some cb) = Some r"
    and H1: "\<forall>d \<in> set (descendants ied).
               elemTag d = ''DOI'' \<and>
               getAttribute d ''name'' = Some (supervisionNameOf (supervisionTypeOf (elemTag cb))) \<longrightarrow>
               (\<exists>p. parentElement d = Some p \<and> (elemTag p = ''LN'' \<or> elemTag p = ''LN0'') \<and>
                    getAttribute p ''lnClass'' = Some (supervisionTypeOf (elemTag cb)))"
    and H2: "\<forall>v \<in> set (descendants ied). elemTag v = ''Val'' \<longrightarrow> descendants v = []"
    and batch: "instantiateSubscriptionSupervision doc fresh mA (Some cb) (Some ied) None = batch"
               "batch \<noteq> []"
  shows "\<exists>ied' cb'. ied' \<in> set (subtree [] (handleEdits batch doc)) \<and>
           cb' \<in> set (subtree [] (handleEdits batch doc)) \<and>
           map nodeHead ied' = map nodeHead ied \<and>
           map nodeHead cb' = map nodeHead cb \<and>
           removeSubscriptionSupervision (Some cb') (Some ied') \<noteq> []"
proof -
  define st where "st = supervisionTypeOf (elemTag cb)"
  define sn where "sn = supervisionNameOf st"
  define val where "val = Element (fresh + 4) ''Val'' [] (textChildren (Some r))"
  have ed: "isElement doc" using ied(1) by (cases doc) auto
  from chain_path[OF ed] ied(1) obtain nsI where nsI: "downPath doc nsI" "ied = rev nsI @ [doc]"
    by blast
  from chain_path[OF ed] cb(1) obtain ncb where ncb: "downPath doc ncb" "cb = rev ncb @ [doc]"
    by blast
  have cbtag: "tagOf (last (doc # ncb)) \<noteq> Some ''Val''"
    using cb(2) elemTag_chain[of ncb doc] ncb(2) by auto
  have iedtag: "tagOf (last (doc # nsI)) = Some ''IED''"
    using ied(2) elemTag_chain[of nsI doc ] nsI(2) by auto
  note core = instantiate_core[OF wf(1) ed wf(2) nsI(1) ied(2)[unfolded nsI(2)] ncb(1) cbtag
      ref[unfolded ncb(2)], folded ncb(2) nsI(2), folded st_def, folded sn_def]
  \<comment> \<open>the batch\<close>
  from batch obtain aln where
    al: "isSupervisionAllowed doc cb ied st" and
    fo: "findOrCreateAvailableLNInst fresh mA cb ied st = Some aln" and
    b: "batch = lnEdits st ied aln @ doiEdits fresh sn aln @ daiEdits fresh st sn ied aln @
                valEdits aln @ [Insert (daiId fresh sn aln) val None]"
    by (auto simp: instantiateSubscriptionSupervision_def Let_def st_def sn_def val_def
        supervisionTypeOf_def ref split: if_splits option.splits)
  have first: "querySelector [selLn st] ied \<noteq> None"
    using al by (auto simp: isSupervisionAllowed_def split: if_splits)
  \<comment> \<open>a removal names a value without element children\<close>
  have leaf: "\<exists>nv. downPath doc nv \<and> nv \<noteq> [] \<and> nodeId (last nv) = Some i \<and>
                filter isElement (kids (last nv)) = [] \<and> tagOf (last nv) = Some ''Val''"
    if "Remove (Some i) \<in> set (doiEdits fresh sn aln @ valEdits aln)"
       "qa \<noteq> []" "downPath doc (nsI @ qa)" "aln = rev (nsI @ qa) @ [doc]" for i qa
  proof -
    from that(1) have "Remove (Some i) \<in> set (valEdits aln)"
      by (auto simp: doiEdits_def split: if_splits)
    then obtain v where v: "querySelector [anyVal] aln = Some v" "elemId v = Some i"
      by (cases "querySelector [anyVal] aln") (auto simp: valEdits_def)
    from querySelector_Some[OF v(1)] have vd: "v \<in> set (descendants aln)" "elemTag v = ''Val''"
      by (simp_all add: anyVal_matches)
    from desc_desc[OF nsI(1) ed that(2,3) vd(1)[unfolded that(4)]] obtain qv where
      qv: "qv \<noteq> []" "downPath doc (nsI @ qa @ qv)" "v = rev (nsI @ qa @ qv) @ [doc]" by blast
    have "v \<in> set (descendants ied)"
      unfolding nsI(2) using desc_path[OF nsI(1) ed, of v] qv that(2)
      by (metis append_is_Nil_conv)
    with H2 vd(2) have "descendants v = []" by blast
    from no_descendants_kids[OF this[unfolded qv(3)] qv(2) ed]
    have k: "filter isElement (kids (last (nsI @ qa @ qv))) = []" using qv(1) by simp
    have i: "nodeId (last (nsI @ qa @ qv)) = Some i"
      using v(2) elemId_chain[of "nsI @ qa @ qv" doc] qv(1,3) by simp
    have t: "tagOf (last (nsI @ qa @ qv)) = Some ''Val''"
      using vd(2) elemTag_chain[of "nsI @ qa @ qv" doc "''Val''"] qv(1,3) by simp
    show ?thesis using qv(1,2) k i t by (intro exI[of _ "nsI @ qa @ qv"]) simp
  qed
  from findOrCreate_cases[OF fo] show ?thesis
  proof
    assume "aln \<in> set (querySelectorAll [selLn st] ied)"
    then have ad: "aln \<in> set (descendants ied)" "elemTag aln = ''LN''"
        "getAttribute aln ''lnClass'' = Some st"
      by (simp_all add: querySelectorAll_mem selLn_matches)
    from desc_path[OF nsI(1) ed, of aln] ad(1) nsI(2) obtain qa where
      qa: "qa \<noteq> []" "downPath doc (nsI @ qa)" "aln = rev (nsI @ qa) @ [doc]" by blast
    have "parentElement aln \<noteq> None"
      using qa(1,3) parent_chain[of "nsI @ butlast qa" "last qa" doc] by simp
    then have ln0: "lnEdits st ied aln = []" by (auto simp add: lnEdits_def)
    note leafA = leaf[OF _ qa]
    show ?thesis
    proof (cases "querySelector [selDai sn] aln")
      case (Some D)
      from querySelector_Some[OF Some] have Dd: "D \<in> set (descendants aln)"
          "matchesComplex (elemId aln) (selDai sn) D" by simp_all
      from selDai_matches[OF Dd(2)] obtain daiN doiN rest where
        D: "D = daiN # doiN # rest" "tagOf daiN = Some ''DAI''"
           "map_of (attrsOf daiN) ''name'' = Some ''setSrcRef''" "tagOf doiN = Some ''DOI''"
           "map_of (attrsOf doiN) ''name'' = Some sn" by blast
      from desc_desc[OF nsI(1) ed qa(1,2) Dd(1)[unfolded qa(3)]] obtain qd where
        qd: "qd \<noteq> []" "downPath doc (nsI @ qa @ qd)" "D = rev (nsI @ qa @ qd) @ [doc]" by blast
      \<comment> \<open>the last two nodes of the path are the DOI and the DAI\<close>
      obtain Q1 where Q: "qa @ qd = Q1 @ [doiN, daiN]" "Q1 \<noteq> []"
      proof -
        have l: "length (qa @ qd) \<ge> 2" using qa(1) qd(1)
          by (cases qa; cases qd) auto
        from last_two[OF this] obtain Q0 x y where q0: "qa @ qd = Q0 @ [x, y]"
          by (elim exE)
        with qd(3) D(1) have xy: "y = daiN" "x = doiN" by (simp_all add: append_assoc[symmetric] del: append_assoc)
        have "Q0 \<noteq> []"
        proof
          assume "Q0 = []"
          with q0 qa(1) qd(1) have "qa = [x]" "qd = [y]"
            by (auto simp: append_eq_Cons_conv Cons_eq_append_conv)
          with qa(3) ad(2) xy D(4) show False
            by (simp add: elemTag_def)
        qed
        with q0 xy that show ?thesis by blast
      qed
      have doiChain: "doiN # rest = rev (nsI @ Q1 @ [doiN]) @ [doc]"
        using qd(3) D(1) Q(1) by (simp add: append_assoc[symmetric] del: append_assoc)
      have dQ: "downPath doc (nsI @ Q1 @ [doiN, daiN])" using qd(2) Q(1) by simp
      then have dQ1: "downPath doc (nsI @ Q1 @ [doiN])"
        by (simp add: downPath_append)
      have "doiN # rest \<in> set (descendants ied)"
        unfolding nsI(2) doiChain using desc_path[OF nsI(1) ed] dQ1 by blast
      moreover have "elemTag (doiN # rest) = ''DOI''" "getAttribute (doiN # rest) ''name'' = Some sn"
        using D(4,5) by (simp_all add: elemTag_def)
      ultimately obtain p where p: "parentElement (doiN # rest) = Some p"
          "elemTag p = ''LN'' \<or> elemTag p = ''LN0''" "getAttribute p ''lnClass'' = Some st"
        using H1 unfolding st_def[symmetric] sn_def[symmetric] by blast
      have pc: "p = rev (nsI @ Q1) @ [doc]"
        using p(1) parent_chain[of "nsI @ Q1" doiN doc] doiChain by simp
      obtain M pN where M: "Q1 = M @ [pN]" using Q(2) by (metis rev_exhaust)
      have ptag: "tagOf pN = Some ''LN'' \<or> tagOf pN = Some ''LN0''"
        using p(2) pc M elemTag_chain[of "nsI @ Q1" doc] by auto
      have pcls: "map_of (attrsOf pN) ''lnClass'' = Some st"
        using p(3) pc M getAttribute_chain[of "nsI @ Q1" doc] by simp
      let ?q = "M @ [pN, doiN, daiN]"
      have base1: "downPath doc (nsI @ ?q)" using dQ M by simp
      have base2: "doiEdits fresh sn aln @ valEdits aln \<noteq> [] \<longrightarrow>
                   tagOf (last (doc # nsI @ ?q)) \<noteq> Some ''Val''" using D(2) by simp
      have ms1: "\<forall>m \<in> set ([]::node list). isElement m \<and> (\<exists>j. nodeId m = Some j \<and> fresh \<le> j)"
        by simp
      have ms2: "distinct (map nodeId ([]::node list))" by simp
      have shape: "map nodeHead ?q @ map nodeHead [] =
                   map nodeHead M @ [nodeHead pN, nodeHead doiN, nodeHead daiN]" by simp
      have rs: "\<forall>i. Remove (Some i) \<in> set (doiEdits fresh sn aln @ valEdits aln) \<longrightarrow>
               (\<exists>nv. downPath doc nv \<and> nv \<noteq> [] \<and> nodeId (last nv) = Some i \<and>
                     filter isElement (kids (last nv)) = [] \<and> tagOf (last nv) = Some ''Val'')"
        using leafA by blast
      have did: "daiId fresh sn aln = nodeId daiN"
        using Some D(1) by (simp add: daiId_def elemId_def)
      have bb: "batch = nestEdits (nodeId (last (doc # nsI @ ?q))) [] @
                  (doiEdits fresh sn aln @ valEdits aln) @
                  [Insert (daiId fresh sn aln) (Element (fresh + 4) ''Val'' [] (textChildren (Some r))) None]"
        using b ln0 Some by (simp add: daiEdits_def val_def)
      have pk: "daiId fresh sn aln = nodeId (last (doc # (nsI @ ?q) @ []))"
        using did by simp
      show ?thesis
        by (rule core[OF base1 base2 ms1 ms2 shape _ _ _ _ _ _ rs bb pk])
           (simp_all add: nodeHead_def ptag pcls D)
    next
      case None
      let ?newDAI = "Element (fresh + 3) ''DAI''
                  ([(''name'', ''setSrcRef'')] @
                   copiedAttr (querySelector [selLnDai st sn] ied) ''valKind'' @
                   copiedAttr (querySelector [selLnDai st sn] ied) ''valImport'') []"
      have dai3: "daiId fresh sn aln = Some (fresh + 3)" using None by (simp add: daiId_def)
      have daiE: "daiEdits fresh st sn ied aln = [Insert (doiId fresh sn aln) ?newDAI None]"
        using None by (simp add: daiEdits_def Let_def)
      have rsV: "\<forall>i. Remove (Some i) \<in> set (valEdits aln) \<longrightarrow>
               (\<exists>nv. downPath doc nv \<and> nv \<noteq> [] \<and> nodeId (last nv) = Some i \<and>
                     filter isElement (kids (last nv)) = [] \<and> tagOf (last nv) = Some ''Val'')"
        using leafA by auto
      show ?thesis
      proof (cases "querySelector [selDoi sn] aln")
        case (Some Do)
        from querySelector_Some[OF Some] have Dd: "Do \<in> set (descendants aln)"
            "elemTag Do = ''DOI''" "getAttribute Do ''name'' = Some sn"
          by (simp_all add: selDoi_matches)
        from desc_desc[OF nsI(1) ed qa(1,2) Dd(1)[unfolded qa(3)]] obtain qd where
          qd: "qd \<noteq> []" "downPath doc (nsI @ qa @ qd)" "Do = rev (nsI @ qa @ qd) @ [doc]"
          by blast
        have "2 \<le> length (qa @ qd)" using qa(1) qd(1) by (cases qa; cases qd) auto
        from last_two[OF this] obtain M pN doiN where Q: "qa @ qd = M @ [pN, doiN]"
          by (elim exE)
        have Doc: "Do = rev (nsI @ (M @ [pN]) @ [doiN]) @ [doc]"
          using qd(3) Q by (simp add: append_assoc[symmetric] del: append_assoc)
        have dQ: "downPath doc (nsI @ M @ [pN, doiN])"
          using qd(2) Q by (simp add: append_assoc[symmetric] del: append_assoc)
        have "Do \<in> set (descendants ied)"
          unfolding nsI(2) using desc_path[OF nsI(1) ed, of Do] Doc dQ
          by (metis append.assoc append_is_Nil_conv list.discI append_Cons append_Nil)
        with Dd(2,3) H1 obtain p where p: "parentElement Do = Some p"
            "elemTag p = ''LN'' \<or> elemTag p = ''LN0''" "getAttribute p ''lnClass'' = Some st"
          unfolding st_def[symmetric] sn_def[symmetric] by blast
        have pc: "p = rev (nsI @ M @ [pN]) @ [doc]"
          using p(1) parent_chain[of "nsI @ M @ [pN]" doiN doc] Doc by simp
        have ptag: "tagOf pN = Some ''LN'' \<or> tagOf pN = Some ''LN0''"
          using p(2) pc elemTag_chain[of "nsI @ M @ [pN]" doc] by auto
        have pcls: "map_of (attrsOf pN) ''lnClass'' = Some st"
          using p(3) pc getAttribute_chain[of "nsI @ M @ [pN]" doc] by simp
        have dtag: "tagOf doiN = Some ''DOI''"
          using Dd(2) Doc elemTag_chain[of "nsI @ (M @ [pN]) @ [doiN]" doc] by auto
        have dname: "map_of (attrsOf doiN) ''name'' = Some sn"
          using Dd(3) Doc getAttribute_chain[of "nsI @ (M @ [pN]) @ [doiN]" doc] by simp
        let ?q = "M @ [pN, doiN]"
        have base1: "downPath doc (nsI @ ?q)" using dQ by simp
        have base2: "valEdits aln \<noteq> [] \<longrightarrow> tagOf (last (doc # nsI @ ?q)) \<noteq> Some ''Val''"
          using dtag by simp
        have ms1: "\<forall>m \<in> set [?newDAI]. isElement m \<and> (\<exists>j. nodeId m = Some j \<and> fresh \<le> j)"
          by simp
        have ms2: "distinct (map nodeId [?newDAI])" by simp
        have shape: "map nodeHead ?q @ map nodeHead [?newDAI] =
                     map nodeHead M @ [nodeHead pN, nodeHead doiN, nodeHead ?newDAI]" by simp
        have did: "doiId fresh sn aln = nodeId doiN"
          using Some Doc elemId_chain[of "nsI @ (M @ [pN]) @ [doiN]" doc]
          by (simp add: doiId_def)
        have doi0: "doiEdits fresh sn aln = []" using Some by (simp add: doiEdits_def)
        have bb: "batch = nestEdits (nodeId (last (doc # nsI @ ?q))) [?newDAI] @ valEdits aln @
                    [Insert (daiId fresh sn aln)
                       (Element (fresh + 4) ''Val'' [] (textChildren (Some r))) None]"
          using b ln0 doi0 daiE did by (simp add: val_def)
        have pk: "daiId fresh sn aln = nodeId (last (doc # (nsI @ ?q) @ [?newDAI]))"
          using dai3 by simp
        show ?thesis
          by (rule core[OF base1 base2 ms1 ms2 shape _ _ _ _ _ _ rsV bb pk])
             (simp_all add: nodeHead_def ptag pcls dtag dname)
      next
        case None
        let ?newDOI = "Element (fresh + 2) ''DOI'' [(''name'', sn)] []"
        obtain M alnN where M: "qa = M @ [alnN]" using qa(1) by (metis rev_exhaust)
        have atag: "tagOf alnN = Some ''LN''"
          using ad(2) qa(3) M elemTag_chain[of "nsI @ qa" doc] by auto
        have acls: "map_of (attrsOf alnN) ''lnClass'' = Some st"
          using ad(3) qa(3) M getAttribute_chain[of "nsI @ qa" doc] by simp
        have aid: "elemId aln = nodeId alnN"
          using qa(3) M elemId_chain[of "nsI @ qa" doc] by simp
        have doi2: "doiId fresh sn aln = Some (fresh + 2)" using None by (simp add: doiId_def)
        have doiE: "doiEdits fresh sn aln = [Insert (elemId aln) ?newDOI None]"
          using None by (simp add: doiEdits_def)
        let ?q = "M @ [alnN]"
        have base1: "downPath doc (nsI @ ?q)" using qa(2) M by simp
        have base2: "valEdits aln \<noteq> [] \<longrightarrow> tagOf (last (doc # nsI @ ?q)) \<noteq> Some ''Val''"
          using atag by simp
        have ms1: "\<forall>m \<in> set [?newDOI, ?newDAI].
                     isElement m \<and> (\<exists>j. nodeId m = Some j \<and> fresh \<le> j)"
          by simp
        have ms2: "distinct (map nodeId [?newDOI, ?newDAI])" by simp
        have shape: "map nodeHead ?q @ map nodeHead [?newDOI, ?newDAI] =
                     map nodeHead M @ [nodeHead alnN, nodeHead ?newDOI, nodeHead ?newDAI]" by simp
        have bb: "batch = nestEdits (nodeId (last (doc # nsI @ ?q))) [?newDOI, ?newDAI] @
                    valEdits aln @
                    [Insert (daiId fresh sn aln)
                       (Element (fresh + 4) ''Val'' [] (textChildren (Some r))) None]"
          using b ln0 doiE daiE doi2 aid by (simp add: val_def)
        have pk: "daiId fresh sn aln = nodeId (last (doc # (nsI @ ?q) @ [?newDOI, ?newDAI]))"
          using dai3 by simp
        show ?thesis
          by (rule core[OF base1 base2 ms1 ms2 shape _ _ _ _ _ _ rsV bb pk])
             (simp_all add: nodeHead_def atag acls)
      qed
    qed
  next
    assume "\<exists>lnType inst. aln = [Element fresh ''LN''
                            [(''lnClass'', st), (''lnType'', lnType), (''inst'', inst)]
                            [Element (fresh + 1) ''Private'' [(''type'', ''OpenSCD.create'')] []]]"
    then obtain lnType inst where aln: "aln = [Element fresh ''LN''
        [(''lnClass'', st), (''lnType'', lnType), (''inst'', inst)]
        [Element (fresh + 1) ''Private'' [(''type'', ''OpenSCD.create'')] []]]"
      by (elim exE)
    let ?newLN = "Element fresh ''LN'' [(''lnClass'', st), (''lnType'', lnType), (''inst'', inst)]
        [Element (fresh + 1) ''Private'' [(''type'', ''OpenSCD.create'')] []]"
    let ?newDOI = "Element (fresh + 2) ''DOI'' [(''name'', sn)] []"
    let ?newDAI = "Element (fresh + 3) ''DAI''
                  ([(''name'', ''setSrcRef'')] @
                   copiedAttr (querySelector [selLnDai st sn] ied) ''valKind'' @
                   copiedAttr (querySelector [selLnDai st sn] ied) ''valImport'') []"
    have nq: "querySelector [selDoi sn] aln = None" "querySelector [selDai sn] aln = None"
        "querySelector [anyVal] aln = None" "parentElement aln = None" "elemId aln = Some fresh"
      unfolding aln by (rule new_ln_queries)+
    have doi2: "doiId fresh sn aln = Some (fresh + 2)" using nq(1) by (simp add: doiId_def)
    have dai3: "daiId fresh sn aln = Some (fresh + 3)" using nq(2) by (simp add: daiId_def)
    have doiE: "doiEdits fresh sn aln = [Insert (Some fresh) ?newDOI None]"
      using nq(1,5) by (simp add: doiEdits_def)
    have daiE: "daiEdits fresh st sn ied aln = [Insert (Some (fresh + 2)) ?newDAI None]"
      using nq(2) doi2 by (simp add: daiEdits_def Let_def)
    have valE: "valEdits aln = []" using nq(3) by (simp add: valEdits_def)
    from first obtain f where f: "querySelector [selLn st] ied = Some f" by blast
    from querySelector_Some[OF f] have fd: "f \<in> set (descendants ied)" by simp
    from desc_path[OF nsI(1) ed, of f] fd nsI(2) obtain qf where
      qf: "qf \<noteq> []" "downPath doc (nsI @ qf)" "f = rev (nsI @ qf) @ [doc]" by blast
    obtain qp fN where qp: "qf = qp @ [fN]" using qf(1) by (metis rev_exhaust)
    define parent where "parent = rev (nsI @ qp) @ [doc]"
    have par: "parentElement f = Some parent"
      using qf(3) qp parent_chain[of "nsI @ qp" fN doc] by (simp add: parent_def)
    have base1: "downPath doc (nsI @ qp)"
      using qf(2) qp downPath_append[of doc "nsI @ qp" "[fN]"] by simp
    have pid: "elemId parent = nodeId (last (doc # nsI @ qp))"
      unfolding parent_def using elemId_chain[of "nsI @ qp" doc] by simp
    have refN: "Option.bind (Option.bind (querySelector [selLnLastChild st] parent)
                  nextElementSibling) elemId = None"
    proof (cases "querySelector [selLnLastChild st] parent")
      case None
      then show ?thesis by simp
    next
      case (Some d)
      from querySelector_Some[OF Some] have dd: "d \<in> set (descendants parent)"
          "isLastElementChild d"
        by (simp_all add: matchesComplex_def selLnLastChild_def)
      from desc_path[OF base1 ed, of d] dd(1) obtain qd where
        qd: "qd \<noteq> []" "downPath doc ((nsI @ qp) @ qd)" "d = rev ((nsI @ qp) @ qd) @ [doc]"
        unfolding parent_def by blast
      obtain X n where X: "(nsI @ qp) @ qd = X @ [n]"
        using qd(1) by (metis rev_exhaust append_is_Nil_conv)
      have dr: "d = rev (X @ [n]) @ [doc]" using qd(3) X by (simp only:)
      have dc: "d = n # last (doc # X) # tl (rev X @ [doc])"
      proof (cases X rule: rev_cases)
        case Nil
        then show ?thesis using dr by simp
      next
        case (snoc Y y)
        then show ?thesis using dr by simp
      qed
      have dX: "downPath doc X" using qd(2) X downPath_append[of doc X "[n]"] by simp
      have "distinct (allIds (last (doc # X)))"
      proof (cases "X = []")
        case True
        then show ?thesis using wf(1) by simp
      next
        case False
        then have "last (doc # X) \<in> set X" by simp
        from distinct_downPath[OF wf(1) dX this] show ?thesis .
      qed
      from lastChild_no_next[OF this dd(2)[unfolded dc]] show ?thesis
        using Some dc by simp
    qed
    have lnE: "lnEdits st ied aln = [Insert (elemId parent) ?newLN None]"
      using nq(4) f par refN by (simp add: lnEdits_def aln)
    have base2: "([]::edit list) \<noteq> [] \<longrightarrow> tagOf (last (doc # nsI @ qp)) \<noteq> Some ''Val''"
      by simp
    have ms1: "\<forall>m \<in> set [?newLN, ?newDOI, ?newDAI].
                 isElement m \<and> (\<exists>j. nodeId m = Some j \<and> fresh \<le> j)"
      by simp
    have ms2: "distinct (map nodeId [?newLN, ?newDOI, ?newDAI])" by simp
    have shape: "map nodeHead qp @ map nodeHead [?newLN, ?newDOI, ?newDAI] =
                 map nodeHead qp @ [nodeHead ?newLN, nodeHead ?newDOI, nodeHead ?newDAI]" by simp
    have rs: "\<forall>i. Remove (Some i) \<in> set ([]::edit list) \<longrightarrow>
               (\<exists>nv. downPath doc nv \<and> nv \<noteq> [] \<and> nodeId (last nv) = Some i \<and>
                     filter isElement (kids (last nv)) = [] \<and> tagOf (last nv) = Some ''Val'')"
      by simp
    have bb: "batch = nestEdits (nodeId (last (doc # nsI @ qp))) [?newLN, ?newDOI, ?newDAI] @
                [] @
                [Insert (daiId fresh sn aln)
                   (Element (fresh + 4) ''Val'' [] (textChildren (Some r))) None]"
      using b lnE doiE daiE valE pid by (simp add: val_def)
    have pk: "daiId fresh sn aln = nodeId (last (doc # (nsI @ qp) @ [?newLN, ?newDOI, ?newDAI]))"
      using dai3 by simp
    show ?thesis
      by (rule core[OF base1 base2 ms1 ms2 shape _ _ _ _ _ _ rs bb pk])
         (simp_all add: nodeHead_def)
  qed
qed

subsection \<open>Identities after a batch\<close>

text \<open>A batch adds no identity beyond those of the nodes it inserts, so the node with the
  identity of the new value is the new value.\<close>

lemma allIds_removeNode: "set (allIds (removeNode i t)) \<subseteq> set (allIds t)"
proof (induction i t rule: removeNode.induct)
  case (1 i s)
  then show ?case by simp
next
  case (2 i j t as cs)
  have "x \<in> set (allIds (Element j t as cs))"
    if "x \<in> set (allIds (removeNode i (Element j t as cs)))" for x
  proof (cases "x = j")
    case True
    then show ?thesis by simp
  next
    case False
    with that obtain c where c: "c \<in> set cs" "nodeId c \<noteq> Some i"
        "x \<in> set (allIds (removeNode i c))" by auto
    with 2[of c] have "x \<in> set (allIds c)" by auto
    with c(1) show ?thesis by auto
  qed
  then show ?case by blast
qed

lemma insertBefore_sub: "set (insertBefore n r cs) \<subseteq> insert n (set cs)"
proof (cases r)
  case None
  then show ?thesis by (auto simp: insertBefore_def)
next
  case (Some i)
  have "set (takeWhile (\<lambda>c. nodeId c \<noteq> Some i) cs) \<subseteq> set cs"
    by (auto dest: set_takeWhileD)
  moreover have "set (dropWhile (\<lambda>c. nodeId c \<noteq> Some i) cs) \<subseteq> set cs"
    by (auto dest: set_dropWhileD)
  ultimately show ?thesis using Some by (auto simp: insertBefore_def)
qed

lemma allIds_insertNode:
  "set (allIds (insertNode p n r t)) \<subseteq> set (allIds t) \<union> set (allIds n)"
proof (induction t)
  case (TextNode s)
  then show ?case by simp
next
  case (Element j tg as cs)
  show ?case
  proof (cases "j = p")
    case True
    have "x \<in> set (allIds (Element j tg as cs)) \<union> set (allIds n)"
      if "x \<in> set (allIds (insertNode p n r (Element j tg as cs)))" for x
    proof (cases "x = j")
      case True
      then show ?thesis by simp
    next
      case False
      with that True obtain c where c: "c \<in> set (insertBefore n r cs)" "x \<in> set (allIds c)"
        by auto
      with insertBefore_sub[of n r cs] have "c = n \<or> c \<in> set cs" by auto
      with c(2) show ?thesis by auto
    qed
    then show ?thesis by blast
  next
    case False
    have "x \<in> set (allIds (Element j tg as cs)) \<union> set (allIds n)"
      if "x \<in> set (allIds (insertNode p n r (Element j tg as cs)))" for x
    proof (cases "x = j")
      case True
      then show ?thesis by simp
    next
      case xj: False
      with that False obtain c where c: "c \<in> set cs" "x \<in> set (allIds (insertNode p n r c))"
        by auto
      with Element[of c] have "x \<in> set (allIds c) \<union> set (allIds n)" by auto
      with c(1) show ?thesis by auto
    qed
    then show ?thesis by blast
  qed
qed

lemma allIds_handleEdit:
  "j \<notin> set (allIds t) \<Longrightarrow> (\<forall>p n r. e = Insert p n r \<longrightarrow> j \<notin> set (allIds n)) \<Longrightarrow>
   j \<notin> set (allIds (handleEdit e t))"
proof (induction e t rule: handleEdit.induct)
  case (1 doc)
  then show ?case by simp
next
  case (2 i doc)
  then show ?case using allIds_removeNode[of i doc] by auto
next
  case (3 n r doc)
  then show ?case by simp
next
  case (4 p n r doc)
  then show ?case using allIds_insertNode[of p n r doc] by auto
qed

lemma allIds_handleEdits:
  "j \<notin> set (allIds t) \<Longrightarrow> (\<forall>p n r. Insert p n r \<in> set es \<longrightarrow> j \<notin> set (allIds n)) \<Longrightarrow>
   j \<notin> set (allIds (handleEdits es t))"
proof (induction es arbitrary: t)
  case Nil
  then show ?case by (simp add: handleEdits_Nil)
next
  case (Cons e es)
  from Cons.prems have "j \<notin> set (allIds (handleEdit e t))"
    by (intro allIds_handleEdit) auto
  moreover have "\<forall>p n r. Insert p n r \<in> set es \<longrightarrow> j \<notin> set (allIds n)"
    using Cons.prems(2) by simp
  ultimately have "j \<notin> set (allIds (handleEdits es (handleEdit e t)))" by (rule Cons.IH)
  then show ?case by (simp add: handleEdits_Cons)
qed

lemma inserted_leaf:
  "downPath (insertNode p n r t) ns \<Longrightarrow> ns \<noteq> [] \<Longrightarrow> nodeId (last ns) = Some j \<Longrightarrow>
   j \<notin> set (allIds t) \<Longrightarrow> filter isElement (kids n) = [] \<Longrightarrow> last ns = n"
proof (induction ns arbitrary: t)
  case Nil
  then show ?case by simp
next
  case (Cons a rest)
  from Cons.prems(1) have a: "isElement a" "a \<in> set (kids (insertNode p n r t))"
      "downPath a rest" by simp_all
  from a(2) obtain i tg as cs where t: "t = Element i tg as cs" by (cases t) auto
  show ?case
  proof (cases "i = p")
    case True
    with a(2) t have "a \<in> set (insertBefore n r cs)" by simp
    with insertBefore_sub[of n r cs] have "a = n \<or> a \<in> set cs" by auto
    then show ?thesis
    proof
      assume an: "a = n"
      have "rest = []"
      proof (cases rest)
        case Nil
        then show ?thesis .
      next
        case (Cons b bs)
        with a(3) an have "isElement b" "b \<in> set (kids n)" by simp_all
        then have "b \<in> set (filter isElement (kids n))" by simp
        with Cons.prems(5) show ?thesis by simp
      qed
      with an show ?thesis by simp
    next
      assume ac: "a \<in> set cs"
      from last_in_allIds[OF a(3) a(1)] Cons.prems(3) have "j \<in> set (allIds a)" by simp
      with ac t have "j \<in> set (allIds t)" by auto
      with Cons.prems(4) show ?thesis by simp
    qed
  next
    case False
    with a(2) t obtain c where c: "c \<in> set cs" "a = insertNode p n r c" by auto
    have jc: "j \<notin> set (allIds c)" using Cons.prems(4) c(1) t by auto
    show ?thesis
    proof (cases "rest = []")
      case True
      with Cons.prems(3) have "nodeId a = Some j" by simp
      with c(2) have "nodeId c = Some j"
        using nodeHead_insertNode[of p n r c] by (simp add: nodeHead_def)
      with jc show ?thesis by (simp add: allIds_nodeId)
    next
      case False
      with Cons.IH[of c] a(3) c(2) Cons.prems(3,5) jc show ?thesis by simp
    qed
  qed
qed

lemma new_value_node:
  assumes "downPath (handleEdits (pre @ [Insert pk n None]) doc) ns" "ns \<noteq> []"
    and "nodeId (last ns) = Some j" "j \<notin> set (allIds doc)"
    and "\<forall>p m r. Insert p m r \<in> set pre \<longrightarrow> j \<notin> set (allIds m)"
    and "filter isElement (kids n) = []"
  shows "last ns = n"
proof -
  let ?d = "handleEdits pre doc"
  have j: "j \<notin> set (allIds ?d)" using allIds_handleEdits[OF assms(4,5)] .
  show ?thesis
  proof (cases pk)
    case None
    with assms(1) have d: "downPath ?d ns"
      by (simp add: handleEdits_append handleEdits_Cons handleEdits_Nil)
    have "last ns \<in> set ns" using assms(2) by simp
    from allIds_downPath[OF d this] allIds_nodeId[OF assms(3)] j show ?thesis by auto
  next
    case (Some p)
    with assms(1) have d: "downPath (insertNode p n None ?d) ns"
      by (simp add: handleEdits_append handleEdits_Cons handleEdits_Nil)
    from inserted_leaf[OF d assms(2,3) j assms(6)] show ?thesis .
  qed
qed

lemma elemText_chain: "elemText (rev ns @ [doc]) = textContent (last (doc # ns))"
proof -
  obtain anc where c: "rev ns @ [doc] = last (doc # ns) # anc"
    by (cases ns rule: rev_cases) simp_all
  show ?thesis unfolding c by (simp add: elemText_def)
qed

lemma batch_parts:
  assumes "instantiateSubscriptionSupervision doc fresh mA (Some cb) (Some ied) None = batch"
    and "batch \<noteq> []" and "controlBlockReference (Some cb) = Some r"
  shows "\<exists>aln. findOrCreateAvailableLNInst fresh mA cb ied (supervisionTypeOf (elemTag cb)) = Some aln \<and>
           batch = (lnEdits (supervisionTypeOf (elemTag cb)) ied aln @
                    doiEdits fresh (supervisionNameOf (supervisionTypeOf (elemTag cb))) aln @
                    daiEdits fresh (supervisionTypeOf (elemTag cb))
                      (supervisionNameOf (supervisionTypeOf (elemTag cb))) ied aln @
                    valEdits aln) @
                   [Insert (daiId fresh (supervisionNameOf (supervisionTypeOf (elemTag cb))) aln)
                      (Element (fresh + 4) ''Val'' [] (textChildren (Some r))) None]"
  using assms
  by (auto simp: instantiateSubscriptionSupervision_def Let_def supervisionTypeOf_def
      split: if_splits option.splits)

lemma pre_ids:
  assumes fo: "findOrCreateAvailableLNInst fresh mA cb ied st = Some aln"
    and ied: "ied \<in> set (subtree [] doc)"
  shows "\<forall>p m r. Insert p m r \<in> set (lnEdits st ied aln @ doiEdits fresh sn aln @
                                     daiEdits fresh st sn ied aln @ valEdits aln) \<longrightarrow>
                 fresh + 4 \<notin> set (allIds m)"
proof -
  have ed: "isElement doc" using ied by (cases doc) auto
  from chain_path[OF ed] ied obtain nsI where nsI: "downPath doc nsI" "ied = rev nsI @ [doc]"
    by blast
  have ln: "fresh + 4 \<notin> set (allIds m)" if "Insert p m r \<in> set (lnEdits st ied aln)" for p m r
    using findOrCreate_cases[OF fo]
  proof
    assume "aln \<in> set (querySelectorAll [selLn st] ied)"
    then have "aln \<in> set (descendants ied)" by (simp add: querySelectorAll_mem)
    with desc_path[OF nsI(1) ed, of aln] nsI(2) obtain qa where
      qa: "qa \<noteq> []" "aln = rev (nsI @ qa) @ [doc]" by blast
    have "parentElement aln \<noteq> None"
      using qa parent_chain[of "nsI @ butlast qa" "last qa" doc] by simp
    then have "lnEdits st ied aln = []" by (auto simp add: lnEdits_def)
    with that show ?thesis by simp
  next
    assume "\<exists>lnType inst. aln = [Element fresh ''LN''
                            [(''lnClass'', st), (''lnType'', lnType), (''inst'', inst)]
                            [Element (fresh + 1) ''Private'' [(''type'', ''OpenSCD.create'')] []]]"
    then obtain lnType inst where aln: "aln = [Element fresh ''LN''
        [(''lnClass'', st), (''lnType'', lnType), (''inst'', inst)]
        [Element (fresh + 1) ''Private'' [(''type'', ''OpenSCD.create'')] []]]"
      by (elim exE)
    have "lnEdits st ied aln = [] \<or> (\<exists>pp rr. lnEdits st ied aln = [Insert pp (hd aln) rr])"
      unfolding lnEdits_def by (simp split: option.split)
    with that have "m = hd aln" by auto
    with aln show ?thesis by simp
  qed
  have doi: "fresh + 4 \<notin> set (allIds m)" if "Insert p m r \<in> set (doiEdits fresh sn aln)" for p m r
    using that by (auto simp: doiEdits_def split: if_splits)
  have dai: "fresh + 4 \<notin> set (allIds m)"
    if "Insert p m r \<in> set (daiEdits fresh st sn ied aln)" for p m r
    using that by (auto simp: daiEdits_def Let_def split: if_splits)
  have val: "Insert p m r \<notin> set (valEdits aln)" for p m r
    by (auto simp: valEdits_def split: option.splits)
  show ?thesis using ln doi dai val by auto
qed

subsection \<open>The round trip\<close>

text \<open>
  Claim C9. Let \<open>C\<close> be a control block (\<open>GSEControl\<close> or \<open>SampledValueControl\<close>) whose
  reference string is \<open>r\<close> and \<open>I\<close> a subscriber device of the same document, in which
  every \<open>DOI\<close> of the supervision name below \<open>I\<close> is a child of a logical node of the
  supervision class and the \<open>Val\<close> elements below \<open>I\<close> hold no elements. When
  \<open>instantiateSubscriptionSupervision\<close> returns a batch for \<open>C\<close> and \<open>I\<close>, the final
  action of the batch inserts a new \<open>Val\<close> with text \<open>r\<close>; in the document the batch
  produces, \<open>removeSubscriptionSupervision\<close> for \<open>C\<close> and \<open>I\<close> returns a batch that is not
  empty, and the value it selects for a control block whose reference string differs
  from \<open>r\<close> is never the inserted \<open>Val\<close>. The identities of the document are distinct
  and below the first identity of the new nodes; the handles of \<open>C\<close> and \<open>I\<close> in the new
  document are those with the same nodes on their paths.
\<close>

theorem instantiate_then_remove:
  assumes wf: "distinct (allIds doc)" "\<forall>i \<in> set (allIds doc). i < fresh"
    and ied: "ied \<in> set (subtree [] doc)" "elemTag ied = ''IED''"
    and cb: "cb \<in> set (subtree [] doc)"
            "elemTag cb = ''GSEControl'' \<or> elemTag cb = ''SampledValueControl''"
    and ref: "controlBlockReference (Some cb) = Some r"
    and H1: "\<forall>d \<in> set (descendants ied).
               elemTag d = ''DOI'' \<and>
               getAttribute d ''name'' = Some (supervisionNameOf (supervisionTypeOf (elemTag cb))) \<longrightarrow>
               (case parentElement d of
                  None \<Rightarrow> False
                | Some p \<Rightarrow> (elemTag p = ''LN'' \<or> elemTag p = ''LN0'') \<and>
                    getAttribute p ''lnClass'' = Some (supervisionTypeOf (elemTag cb)))"
    and H2: "\<forall>v \<in> set (descendants ied). elemTag v = ''Val'' \<longrightarrow> descendants v = []"
    and batch: "instantiateSubscriptionSupervision doc fresh mA (Some cb) (Some ied) None = batch"
               "batch \<noteq> []"
  shows "(\<exists>p n. last batch = Insert p n None \<and> nodeId n = Some (fresh + 4) \<and>
                 tagOf n = Some ''Val'' \<and> textContent n = r) \<and>
         (\<exists>ied' cb'. ied' \<in> set (subtree [] (handleEdits batch doc)) \<and>
            cb' \<in> set (subtree [] (handleEdits batch doc)) \<and>
            map nodeHead ied' = map nodeHead ied \<and>
            map nodeHead cb' = map nodeHead cb \<and>
            removeSubscriptionSupervision (Some cb') (Some ied') \<noteq> [] \<and>
            (\<forall>cb2 v. controlBlockReference (Some cb2) \<noteq> Some r \<longrightarrow>
               find (\<lambda>val. Some (elemText val) = controlBlockReference (Some cb2))
                 (getSupervisionCbRefs ied' (elemTag cb2)) = Some v \<longrightarrow>
               elemId v \<noteq> Some (fresh + 4)))"
proof -
  define st where "st = supervisionTypeOf (elemTag cb)"
  define sn where "sn = supervisionNameOf st"
  define val where "val = Element (fresh + 4) ''Val'' [] (textChildren (Some r))"
  from batch_parts[OF batch ref, folded st_def, folded sn_def, folded val_def]
  obtain aln where fo: "findOrCreateAvailableLNInst fresh mA cb ied st = Some aln"
    and b: "batch = (lnEdits st ied aln @ doiEdits fresh sn aln @ daiEdits fresh st sn ied aln @
                     valEdits aln) @ [Insert (daiId fresh sn aln) val None]"
    by blast
  have vt: "textContent val = r" by (simp add: val_def textContent_textChildren)
  have vk: "filter isElement (kids val) = []" by (simp add: val_def textChildren_def)
  have first: "\<exists>p n. last batch = Insert p n None \<and> nodeId n = Some (fresh + 4) \<and>
                 tagOf n = Some ''Val'' \<and> textContent n = r"
    using b vt by (simp add: val_def)
  have fr: "fresh + 4 \<notin> set (allIds doc)" using wf(2) by auto
  let ?D = "handleEdits batch doc"
  have eD: "isElement ?D"
    using ied(1) nodeHead_isElement[OF nodeHead_handleEdits[of batch doc]] by (cases doc) auto
  have H1': "\<forall>d \<in> set (descendants ied).
               elemTag d = ''DOI'' \<and>
               getAttribute d ''name'' = Some (supervisionNameOf (supervisionTypeOf (elemTag cb))) \<longrightarrow>
               (\<exists>p. parentElement d = Some p \<and> (elemTag p = ''LN'' \<or> elemTag p = ''LN0'') \<and>
                    getAttribute p ''lnClass'' = Some (supervisionTypeOf (elemTag cb)))"
  proof (intro ballI impI)
    fix d assume "d \<in> set (descendants ied)"
      "elemTag d = ''DOI'' \<and>
       getAttribute d ''name'' = Some (supervisionNameOf (supervisionTypeOf (elemTag cb)))"
    with H1 show "\<exists>p. parentElement d = Some p \<and> (elemTag p = ''LN'' \<or> elemTag p = ''LN0'') \<and>
                    getAttribute p ''lnClass'' = Some (supervisionTypeOf (elemTag cb))"
      by (cases "parentElement d") auto
  qed
  from supervision_round_trip[OF wf ied cb ref H1' H2 batch]
  obtain ied' cb' where c: "ied' \<in> set (subtree [] ?D)" "cb' \<in> set (subtree [] ?D)"
      "map nodeHead ied' = map nodeHead ied" "map nodeHead cb' = map nodeHead cb"
      "removeSubscriptionSupervision (Some cb') (Some ied') \<noteq> []" by blast
  from chain_path[OF eD] c(1) obtain ns where ns: "downPath ?D ns" "ied' = rev ns @ [?D]"
    by blast
  have other: "elemId v \<noteq> Some (fresh + 4)"
    if r2: "controlBlockReference (Some cb2) \<noteq> Some r"
      and f: "find (\<lambda>val. Some (elemText val) = controlBlockReference (Some cb2))
                (getSupervisionCbRefs ied' (elemTag cb2)) = Some v" for cb2 v
  proof
    assume id: "elemId v = Some (fresh + 4)"
    from f have v: "v \<in> set (getSupervisionCbRefs ied' (elemTag cb2))"
        "Some (elemText v) = controlBlockReference (Some cb2)"
      by (auto simp: find_Some_iff)
    from v(1) have "v \<in> set (descendants ied')"
      by (simp add: getSupervisionCbRefs_def Let_def querySelectorAll_mem)
    with desc_path[OF ns(1) eD, of v] ns(2) obtain q where
      q: "q \<noteq> []" "downPath ?D (ns @ q)" "v = rev (ns @ q) @ [?D]" by blast
    have l: "nodeId (last (ns @ q)) = Some (fresh + 4)"
      using id q(1,3) elemId_chain[of "ns @ q" ?D] by simp
    have "last (ns @ q) = val"
      using new_value_node[OF q(2)[unfolded b] _ l fr pre_ids[OF fo ied(1)] vk] q(1) by simp
    moreover have "elemText v = textContent (last (ns @ q))"
      using q(1,3) elemText_chain[of "ns @ q" ?D] by simp
    ultimately have "elemText v = r" using vt by simp
    with v(2) r2 show False by simp
  qed
  show ?thesis using first c other by blast
qed

text \<open>
  The round trip on the subscriber whose second supervision is empty, for the
  control block \<open>gcb2\<close>: the batch replaces the empty \<open>Val\<close> 25 by a \<open>Val\<close> with the
  reference of \<open>gcb2\<close>, and the remover then answers with the removal of the logical
  node 21, which the engine created.
\<close>

theorem instantiate_then_remove_witness:
  "instantiateSubscriptionSupervision (exDoc []) 100 exMinAvailable
       (Some (exControl [] 1)) (Some (exIed [])) None =
     [Remove (Some 25),
      Insert (Some 24) (Element 104 ''Val'' [] [TextNode ''PubLD0/LLN0.gcb2'']) None] \<and>
   removeSubscriptionSupervision
       (Some (gcb2Of (handleEdits
          [Remove (Some 25),
           Insert (Some 24) (Element 104 ''Val'' [] [TextNode ''PubLD0/LLN0.gcb2'']) None]
          (exDoc []))))
       (Some (subscriberOf (handleEdits
          [Remove (Some 25),
           Insert (Some 24) (Element 104 ''Val'' [] [TextNode ''PubLD0/LLN0.gcb2'']) None]
          (exDoc [])))) =
     [Remove (Some 21)] \<and>
   (\<exists>ied' cb'.
      ied' \<in> set (subtree []
               (handleEdits
                  [Remove (Some 25),
                   Insert (Some 24) (Element 104 ''Val'' [] [TextNode ''PubLD0/LLN0.gcb2'']) None]
                  (exDoc []))) \<and>
      cb' \<in> set (subtree []
               (handleEdits
                  [Remove (Some 25),
                   Insert (Some 24) (Element 104 ''Val'' [] [TextNode ''PubLD0/LLN0.gcb2'']) None]
                  (exDoc []))) \<and>
      map nodeHead ied' = map nodeHead (exIed []) \<and>
      map nodeHead cb' = map nodeHead (exControl [] 1) \<and>
      removeSubscriptionSupervision (Some cb') (Some ied') \<noteq> [] \<and>
      (\<forall>cb2 v. controlBlockReference (Some cb2) \<noteq> Some ''PubLD0/LLN0.gcb2'' \<longrightarrow>
         find (\<lambda>val. Some (elemText val) = controlBlockReference (Some cb2))
           (getSupervisionCbRefs ied' (elemTag cb2)) = Some v \<longrightarrow>
         elemId v \<noteq> Some 104))"
proof -
  have 1: "distinct (allIds (exDoc []))" by code_simp
  have 2: "\<forall>i \<in> set (allIds (exDoc [])). i < 100" by code_simp
  have 3: "exIed [] \<in> set (subtree [] (exDoc []))" by code_simp
  have 4: "elemTag (exIed []) = ''IED''" by code_simp
  have 5: "exControl [] 1 \<in> set (subtree [] (exDoc []))" by code_simp
  have 6: "elemTag (exControl [] 1) = ''GSEControl'' \<or>
           elemTag (exControl [] 1) = ''SampledValueControl''" by code_simp
  have 7: "controlBlockReference (Some (exControl [] 1)) = Some ''PubLD0/LLN0.gcb2''"
    by code_simp
  have 8: "\<forall>d \<in> set (descendants (exIed [])).
             elemTag d = ''DOI'' \<and>
             getAttribute d ''name'' =
               Some (supervisionNameOf (supervisionTypeOf (elemTag (exControl [] 1)))) \<longrightarrow>
             (case parentElement d of
                None \<Rightarrow> False
              | Some p \<Rightarrow> (elemTag p = ''LN'' \<or> elemTag p = ''LN0'') \<and>
                  getAttribute p ''lnClass'' = Some (supervisionTypeOf (elemTag (exControl [] 1))))"
    by code_simp
  have 9: "\<forall>v \<in> set (descendants (exIed [])). elemTag v = ''Val'' \<longrightarrow> descendants v = []"
    by code_simp
  have 10: "instantiateSubscriptionSupervision (exDoc []) 100 exMinAvailable
              (Some (exControl [] 1)) (Some (exIed [])) None =
            [Remove (Some 25),
             Insert (Some 24) (Element 104 ''Val'' [] [TextNode ''PubLD0/LLN0.gcb2'']) None]"
    by code_simp
  have 11: "[Remove (Some 25),
             Insert (Some 24) (Element 104 ''Val'' [] [TextNode ''PubLD0/LLN0.gcb2'']) None] \<noteq> []"
    by simp
  have 12: "removeSubscriptionSupervision
       (Some (gcb2Of (handleEdits
          [Remove (Some 25),
           Insert (Some 24) (Element 104 ''Val'' [] [TextNode ''PubLD0/LLN0.gcb2'']) None]
          (exDoc []))))
       (Some (subscriberOf (handleEdits
          [Remove (Some 25),
           Insert (Some 24) (Element 104 ''Val'' [] [TextNode ''PubLD0/LLN0.gcb2'']) None]
          (exDoc [])))) =
     [Remove (Some 21)]"
    by code_simp
  have n: "(100::nat) + 4 = 104" by simp
  note t = instantiate_then_remove[OF 1 2 3 4 5 6 7 8 9 10 11, THEN conjunct2, unfolded n]
  show ?thesis by (rule conjI[OF 10 conjI[OF 12 t]])
qed

text \<open>
  Claim C9 as it is written, for every control block and every device, fails on two
  documents. In \<open>exNested\<close> the allocator finds the \<open>DOI\<close> inside the \<open>Private\<close> section
  of the free logical node and puts the new \<open>DAI\<close> and \<open>Val\<close> there, where the remover,
  which looks for \<open>LN > DOI > DAI > Val\<close>, does not see them. In \<open>exValHolder\<close> the
  batch removes the first \<open>Val\<close> of the free logical node, and with it the \<open>DAI\<close> it
  then inserts into. In both the final action inserts a \<open>Val\<close> with the reference of
  \<open>gcb2\<close>, and the remover returns the empty batch for \<open>gcb2\<close> and the device.
\<close>

theorem instantiate_not_removed_counterexample:
  "instantiateSubscriptionSupervision exNested 100 exMinAvailable
       (Some (gcb2Of exNested)) (Some (subscriberOf exNested)) None =
     [Insert (Some 23)
        (Element 103 ''DAI''
           [(''name'', ''setSrcRef''), (''valKind'', ''RO''), (''valImport'', ''true'')] []) None,
      Insert (Some 103) (Element 104 ''Val'' [] [TextNode ''PubLD0/LLN0.gcb2'']) None] \<and>
   controlBlockReference (Some (gcb2Of exNested)) = Some ''PubLD0/LLN0.gcb2'' \<and>
   removeSubscriptionSupervision
       (Some (gcb2Of (handleEdits
          [Insert (Some 23)
             (Element 103 ''DAI''
                [(''name'', ''setSrcRef''), (''valKind'', ''RO''), (''valImport'', ''true'')] [])
             None,
           Insert (Some 103) (Element 104 ''Val'' [] [TextNode ''PubLD0/LLN0.gcb2'']) None]
          exNested)))
       (Some (subscriberOf (handleEdits
          [Insert (Some 23)
             (Element 103 ''DAI''
                [(''name'', ''setSrcRef''), (''valKind'', ''RO''), (''valImport'', ''true'')] [])
             None,
           Insert (Some 103) (Element 104 ''Val'' [] [TextNode ''PubLD0/LLN0.gcb2'']) None]
          exNested))) = [] \<and>
   instantiateSubscriptionSupervision exValHolder 100 exMinAvailable
       (Some (gcb2Of exValHolder)) (Some (subscriberOf exValHolder)) None =
     [Remove (Some 30),
      Insert (Some 33) (Element 104 ''Val'' [] [TextNode ''PubLD0/LLN0.gcb2'']) None] \<and>
   controlBlockReference (Some (gcb2Of exValHolder)) = Some ''PubLD0/LLN0.gcb2'' \<and>
   removeSubscriptionSupervision
       (Some (gcb2Of (handleEdits
          [Remove (Some 30),
           Insert (Some 33) (Element 104 ''Val'' [] [TextNode ''PubLD0/LLN0.gcb2'']) None]
          exValHolder)))
       (Some (subscriberOf (handleEdits
          [Remove (Some 30),
           Insert (Some 33) (Element 104 ''Val'' [] [TextNode ''PubLD0/LLN0.gcb2'']) None]
          exValHolder))) = []"
  by (intro conjI; code_simp)

section \<open>The device replacement engine on a plant of two devices\<close>

text \<open>
  C1, evaluated: the device \<open>IED1\<close> is the second child of the root, after the
  \<open>Communication\<close> section. The first batch removes it and inserts the copy of the
  template, renamed \<open>IED1\<close>, under the root with the \<open>Communication\<close> section, the
  previous element sibling, as the reference. An insertion lands before its
  reference: afterwards the copy is the first child of the root and the second
  child, where the device was, is the \<open>Communication\<close> section.
\<close>

theorem replaceIeds_swap_lands_before_previous_sibling:
  "map (\<lambda>c. (tagOf c, map_of (attrsOf c) ''name'')) (kids (exPlant True)) =
     [(Some ''Communication'', None), (Some ''IED'', Some ''IED1''), (Some ''IED'', Some ''TPL'')] \<and>
   hd (fst (snd (snd (replaceIeds exIdentity exResolve (Multi [''IED1'']) [''TPL'']
                        (exPlant True, [], 100))))) =
     [Remove (Some 2),
      Insert (Some 0)
        (Element 102 ''IED'' [(''name'', ''IED1'')]
          [Element 103 ''LDevice'' [(''inst'', ''LD0'')]
            [Element 104 ''LN0'' [(''lnClass'', ''LLN0'')]
              [Element 105 ''Inputs'' [] [],
               Element 106 ''GSEControl'' [(''name'', ''gcbTpl'')] []]]])
        (Some 1)] \<and>
   map (\<lambda>c. (tagOf c, map_of (attrsOf c) ''name''))
     (kids (fst (snd (replaceIeds exIdentity exResolve (Multi [''IED1'']) [''TPL'']
                        (exPlant True, [], 100))))) =
     [(Some ''IED'', Some ''IED1''), (Some ''Communication'', None), (Some ''IED'', Some ''TPL'')]"
  by code_simp

text \<open>
  C6, evaluated: the removals of message definitions in the second batch name the
  \<open>GSEControl\<close> of the removed device (node 6), not the one of the inserted copy
  (node 106); after both batches the \<open>LN0\<close> of the copy still holds the template's
  definition \<open>gcbTpl\<close> beside the captured \<open>gcbOld\<close>.
\<close>

theorem replaceIeds_keeps_template_definitions:
  "replaceIeds exIdentity exResolve (Multi [''IED1'']) [''TPL''] (exPlant True, [], 100) =
     (Completed,
      Element 0 ''SCL'' []
        [Element 102 ''IED'' [(''name'', ''IED1'')]
          [Element 103 ''LDevice'' [(''inst'', ''LD0'')]
            [Element 104 ''LN0'' [(''lnClass'', ''LLN0'')]
              [Element 100 ''Inputs'' [] [],
               Element 106 ''GSEControl'' [(''name'', ''gcbTpl'')] [],
               Element 101 ''GSEControl'' [(''name'', ''gcbOld'')] []]]],
         Element 1 ''Communication'' [] [],
         exDevice 10 ''TPL'' ''gcbTpl'' True],
      [[Remove (Some 2),
        Insert (Some 0)
          (Element 102 ''IED'' [(''name'', ''IED1'')]
            [Element 103 ''LDevice'' [(''inst'', ''LD0'')]
              [Element 104 ''LN0'' [(''lnClass'', ''LLN0'')]
                [Element 105 ''Inputs'' [] [],
                 Element 106 ''GSEControl'' [(''name'', ''gcbTpl'')] []]]])
          (Some 1)],
       [Remove (Some 105),
        Insert (Some 104) (Element 100 ''Inputs'' [] []) (Some 106),
        Remove (Some 6),
        Insert (Some 104) (Element 101 ''GSEControl'' [(''name'', ''gcbOld'')] []) None]],
      107)"
  by code_simp

text \<open>
  C8, evaluated: when the selected device owns no binding section, the map of
  captured sections has no entry for its name; the operation dispatches the swap and
  then raises a \<open>TypeError\<close>. With no item selected or no template chosen nothing is
  dispatched.
\<close>

theorem replaceIeds_throws_without_inputs:
  "fst (replaceIeds exIdentity exResolve (Multi [''IED1'']) [''TPL''] (exPlant False, [], 100)) =
     Thrown TypeError \<and>
   length (fst (snd (snd (replaceIeds exIdentity exResolve (Multi [''IED1'']) [''TPL'']
                            (exPlant False, [], 100))))) = 1 \<and>
   querySelectorAll inputsOfScope (elementAt [exPlant False] [1]) = [] \<and>
   replaceIeds exIdentity exResolve (Multi []) [''TPL''] (exPlant False, [], 100) =
     (Completed, exPlant False, [], 100) \<and>
   replaceIeds exIdentity exResolve (Multi [''IED1'']) [] (exPlant False, [], 100) =
     (Completed, exPlant False, [], 100)"
  by code_simp

end
